theory Spec2Isabelle
  imports Main "HOL-Library.Word" "HOL-Library.Finite_Map"
begin

section \<open>Java values\<close>

text \<open>
  The three cache classes of the repository are Java: \<^verbatim>\<open>LRUCache<T>\<close> in
  \<^verbatim>\<open>custom/LRUCache.java\<close>, \<^verbatim>\<open>LRUCache<K, V>\<close> in \<^verbatim>\<open>lld/Design_LRU_Cache.md\<close>
  and \<^verbatim>\<open>LFUCache\<close>. A Java \<^verbatim>\<open>int\<close> is a 32-bit word read as a signed number
  (\<open>sint\<close>), so \<^verbatim>\<open>frequency++\<close> wraps from \<open>2^31 - 1\<close> to \<open>- 2^31\<close>. A value of
  a type parameter is a reference, which may be \<^verbatim>\<open>null\<close>: \<open>None\<close> is \<^verbatim>\<open>null\<close>.
  The only exception the three classes can raise is a null dereference.
\<close>

type_synonym jint = "32 word"

type_synonym 'a ref = "'a option"

datatype error = NullPointerException

text \<open>
  \<^verbatim>\<open>java.util.HashMap\<close> is a finite map. Its \<^verbatim>\<open>size()\<close> is the number of keys (as a
  mathematical integer: the \<^verbatim>\<open>int\<close> the library returns is that number below \<open>2^31\<close>
  entries).
\<close>

definition HashMap_size :: "('k, 'v) fmap \<Rightarrow> int" where
  "HashMap_size m = int (card (fmdom' m))"

section \<open>Doubly linked chains\<close>

text \<open>
  The nodes of all three classes carry two references, \<^verbatim>\<open>prev\<close> and \<^verbatim>\<open>next\<close>, and each
  class keeps its nodes between two sentinel nodes, \<^verbatim>\<open>head\<close> and \<^verbatim>\<open>tail\<close>. The store \<open>h\<close>
  gives the two references of the node at each address. A field write through a null
  reference throws.
\<close>

type_synonym addr = nat

record links =
  prev :: "addr option"
  "next" :: "addr option"

type_synonym heap = "addr \<Rightarrow> links"

definition set_next :: "addr option \<Rightarrow> addr option \<Rightarrow> heap \<Rightarrow> error + heap" where
  "set_next p v h =
     (case p of None \<Rightarrow> Inl NullPointerException | Some a \<Rightarrow> Inr (h(a := (h a)\<lparr>next := v\<rparr>)))"

definition set_prev :: "addr option \<Rightarrow> addr option \<Rightarrow> heap \<Rightarrow> error + heap" where
  "set_prev p v h =
     (case p of None \<Rightarrow> Inl NullPointerException | Some a \<Rightarrow> Inr (h(a := (h a)\<lparr>prev := v\<rparr>)))"

text \<open>
  The store holds the chain \<open>xs\<close> between \<open>head\<close> and \<open>tail\<close> when following \<^verbatim>\<open>next\<close> from
  \<open>head\<close> meets the nodes of \<open>xs\<close> in order and then \<open>tail\<close>, each \<^verbatim>\<open>prev\<close> leads back, and
  no node is met twice. In the models of the classes below, a chain is this list \<open>xs\<close>.
\<close>

fun linked :: "heap \<Rightarrow> addr list \<Rightarrow> bool" where
  "linked h [] \<longleftrightarrow> True"
| "linked h [a] \<longleftrightarrow> True"
| "linked h (a # b # us) \<longleftrightarrow> next (h a) = Some b \<and> prev (h b) = Some a \<and> linked h (b # us)"

definition chain :: "heap \<Rightarrow> addr \<Rightarrow> addr \<Rightarrow> addr list \<Rightarrow> bool" where
  "chain h head tail xs \<longleftrightarrow>
     linked h (head # xs @ [tail]) \<and> distinct (head # xs @ [tail]) \<and>
     prev (h head) = None \<and> next (h tail) = None"

section \<open>\<^verbatim>\<open>LRUCache<T>\<close> of \<^verbatim>\<open>custom/LRUCache.java\<close>\<close>

text \<open>
  A \<^verbatim>\<open>NodeEntry\<close> is never written after its construction, apart from its links. The
  chain of links between the two sentinel nodes \<^verbatim>\<open>head\<close> and \<^verbatim>\<open>tail\<close> is the list
  \<open>head_to_tail\<close> of the nodes met from \<^verbatim>\<open>head.next\<close> to \<^verbatim>\<open>tail.prev\<close>; the sentinels
  themselves are not in it.
\<close>

record 't NodeEntry =
  key :: "'t ref"
  "value" :: "'t ref"

record 't LRUCache =
  cache :: "('t ref, 't NodeEntry) fmap"
  capacity :: jint
  head_to_tail :: "'t NodeEntry list"

text \<open>The constructor stores the capacity as it is given: there is no check and no throw.\<close>

definition LRUCache_init :: "jint \<Rightarrow> error + 't LRUCache" where
  "LRUCache_init cap =
     Inr \<lparr>LRUCache.cache = fmempty, LRUCache.capacity = cap, LRUCache.head_to_tail = []\<rparr>"

text \<open>
  \<^verbatim>\<open>addNode\<close> on the links:
  \<^verbatim>\<open>curr = head.next; node.next = curr; curr.prev = node; head.next = node; node.prev = head\<close>.
\<close>

definition LRUCache_addNode_links :: "addr \<Rightarrow> addr \<Rightarrow> heap \<Rightarrow> error + heap" where
  "LRUCache_addNode_links head node h =
     (let curr = next (h head) in
      case set_next (Some node) curr h of Inl e \<Rightarrow> Inl e | Inr h1 \<Rightarrow>
     (case set_prev curr (Some node) h1 of Inl e \<Rightarrow> Inl e | Inr h2 \<Rightarrow>
     (case set_next (Some head) (Some node) h2 of Inl e \<Rightarrow> Inl e | Inr h3 \<Rightarrow>
      set_prev (Some node) (Some head) h3)))"

text \<open>On the chain, \<^verbatim>\<open>addNode\<close> links the node right behind \<^verbatim>\<open>head\<close>.\<close>

definition LRUCache_addNode :: "'a \<Rightarrow> 'a list \<Rightarrow> 'a list" where
  "LRUCache_addNode node l = node # l"

text \<open>
  \<^verbatim>\<open>remove\<close> on the links:
  \<^verbatim>\<open>next = node.next; prev = node.prev; prev.next = next; next.prev = prev\<close>.
\<close>

definition LRUCache_remove_links :: "addr \<Rightarrow> heap \<Rightarrow> error + heap" where
  "LRUCache_remove_links node h =
     (let nx = next (h node); pv = prev (h node) in
      case set_next pv nx h of Inl e \<Rightarrow> Inl e | Inr h1 \<Rightarrow> set_prev nx pv h1)"

text \<open>
  On the chain, \<^verbatim>\<open>remove\<close> joins the neighbours of the node. A node that is not linked (a
  new node, or the sentinel \<^verbatim>\<open>head\<close>, which is what \<^verbatim>\<open>tail.prev\<close> is when the chain is
  empty) has \<^verbatim>\<open>prev == null\<close>, and \<^verbatim>\<open>prev.next = next\<close> throws. (A node unlinked earlier
  keeps its old links; no caller passes one, since every caller takes the node from the
  map or from the chain.)
\<close>

definition LRUCache_remove :: "'a \<Rightarrow> 'a list \<Rightarrow> error + 'a list" where
  "LRUCache_remove node l =
     (if node \<in> set l then Inr (remove1 node l) else Inl NullPointerException)"

definition LRUCache_put :: "'t ref \<Rightarrow> 't ref \<Rightarrow> 't LRUCache \<Rightarrow> error + 't LRUCache" where
  "LRUCache_put k v c =
     (case (case fmlookup (LRUCache.cache c) k of
              None \<Rightarrow> Inr (LRUCache.head_to_tail c)
            | Some n \<Rightarrow> LRUCache_remove n (LRUCache.head_to_tail c)) of
        Inl e \<Rightarrow> Inl e
      | Inr l1 \<Rightarrow>
          let newNode = \<lparr>NodeEntry.key = k, NodeEntry.value = v\<rparr>;
              cache1 = fmupd k newNode (LRUCache.cache c);
              l2 = LRUCache_addNode newNode l1
          in if HashMap_size cache1 > sint (LRUCache.capacity c)
             then (case l2 of
                     [] \<Rightarrow> Inl NullPointerException
                   | _ # _ \<Rightarrow>
                       let nodeToDelete = last l2 in
                       (case LRUCache_remove nodeToDelete l2 of
                          Inl e \<Rightarrow> Inl e
                        | Inr l3 \<Rightarrow>
                            Inr (c\<lparr>LRUCache.cache := fmdrop (NodeEntry.key nodeToDelete) cache1,
                                   LRUCache.head_to_tail := l3\<rparr>)))
             else Inr (c\<lparr>LRUCache.cache := cache1, LRUCache.head_to_tail := l2\<rparr>))"

text \<open>\<^verbatim>\<open>get\<close> returns \<^verbatim>\<open>null\<close> for a key that is not in the map, the stored value otherwise.\<close>

definition LRUCache_get :: "'t ref \<Rightarrow> 't LRUCache \<Rightarrow> error + ('t ref \<times> 't LRUCache)" where
  "LRUCache_get k c =
     (case fmlookup (LRUCache.cache c) k of
        None \<Rightarrow> Inr (None, c)
      | Some node \<Rightarrow>
          (case LRUCache_remove node (LRUCache.head_to_tail c) of
             Inl e \<Rightarrow> Inl e
           | Inr l1 \<Rightarrow>
               Inr (NodeEntry.value node, c\<lparr>LRUCache.head_to_tail := LRUCache_addNode node l1\<rparr>)))"

datatype 't LRUCache_op = LRU_put "'t ref" "'t ref" | LRU_get "'t ref"

fun LRUCache_step :: "'t LRUCache_op \<Rightarrow> 't LRUCache \<Rightarrow> error + 't LRUCache" where
  "LRUCache_step (LRU_put k v) c = LRUCache_put k v c"
| "LRUCache_step (LRU_get k) c = map_sum id snd (LRUCache_get k c)"

text \<open>A sequence of calls on one cache; a call that throws ends it.\<close>

fun LRUCache_run :: "'t LRUCache_op list \<Rightarrow> error + 't LRUCache \<Rightarrow> error + 't LRUCache" where
  "LRUCache_run [] r = r"
| "LRUCache_run (x # xs) (Inl e) = Inl e"
| "LRUCache_run (x # xs) (Inr c) = LRUCache_run xs (LRUCache_step x c)"

section \<open>\<^verbatim>\<open>LRUCache<K, V>\<close> of \<^verbatim>\<open>lld/Design_LRU_Cache.md\<close>\<close>

text \<open>
  Here \<^verbatim>\<open>put\<close> writes the \<^verbatim>\<open>value\<close> field of a node that both the map and the chain
  refer to. The node objects are held once, in the map; the chain \<open>dll\<close> is the list of
  the linked nodes from \<^verbatim>\<open>head.next\<close> to \<^verbatim>\<open>tail.prev\<close>, each node named by its \<^verbatim>\<open>key\<close>
  field, which is never written after construction.
\<close>

record ('k, 'v) Node =
  key :: "'k ref"
  "value" :: "'v ref"

record ('k, 'v) LRUCache_lld =
  capacity :: jint
  cache :: "('k ref, ('k, 'v) Node) fmap"
  dll :: "'k ref list"

definition LRUCache_lld_init :: "jint \<Rightarrow> error + ('k, 'v) LRUCache_lld" where
  "LRUCache_lld_init cap =
     Inr \<lparr>LRUCache_lld.capacity = cap, LRUCache_lld.cache = fmempty, LRUCache_lld.dll = []\<rparr>"

text \<open>
  \<^verbatim>\<open>addFirst\<close> on the links:
  \<^verbatim>\<open>node.next = head.next; node.prev = head; head.next.prev = node; head.next = node\<close>.
\<close>

definition DoublyLinkedList_addFirst_links :: "addr \<Rightarrow> addr \<Rightarrow> heap \<Rightarrow> error + heap" where
  "DoublyLinkedList_addFirst_links head node h =
     (case set_next (Some node) (next (h head)) h of Inl e \<Rightarrow> Inl e | Inr h1 \<Rightarrow>
     (case set_prev (Some node) (Some head) h1 of Inl e \<Rightarrow> Inl e | Inr h2 \<Rightarrow>
     (case set_prev (next (h2 head)) (Some node) h2 of Inl e \<Rightarrow> Inl e | Inr h3 \<Rightarrow>
      set_next (Some head) (Some node) h3)))"

definition DoublyLinkedList_addFirst :: "'a \<Rightarrow> 'a list \<Rightarrow> 'a list" where
  "DoublyLinkedList_addFirst node l = node # l"

text \<open>
  \<^verbatim>\<open>remove\<close> on the links: \<^verbatim>\<open>node.prev.next = node.next; node.next.prev = node.prev\<close>.
\<close>

definition DoublyLinkedList_remove_links :: "addr \<Rightarrow> heap \<Rightarrow> error + heap" where
  "DoublyLinkedList_remove_links node h =
     (case set_next (prev (h node)) (next (h node)) h of Inl e \<Rightarrow> Inl e | Inr h1 \<Rightarrow>
      set_prev (next (h1 node)) (prev (h1 node)) h1)"

text \<open>As above, unlinking a node that is not linked dereferences its null \<^verbatim>\<open>prev\<close>.\<close>

definition DoublyLinkedList_remove :: "'a \<Rightarrow> 'a list \<Rightarrow> error + 'a list" where
  "DoublyLinkedList_remove node l =
     (if node \<in> set l then Inr (remove1 node l) else Inl NullPointerException)"

definition DoublyLinkedList_moveToFront :: "'a \<Rightarrow> 'a list \<Rightarrow> error + 'a list" where
  "DoublyLinkedList_moveToFront node l =
     (case DoublyLinkedList_remove node l of
        Inl e \<Rightarrow> Inl e
      | Inr l1 \<Rightarrow> Inr (DoublyLinkedList_addFirst node l1))"

text \<open>\<^verbatim>\<open>removeLast\<close> returns \<^verbatim>\<open>null\<close> (here \<open>None\<close>) when \<^verbatim>\<open>tail.prev == head\<close>.\<close>

definition DoublyLinkedList_removeLast :: "'a list \<Rightarrow> error + ('a option \<times> 'a list)" where
  "DoublyLinkedList_removeLast l =
     (case l of
        [] \<Rightarrow> Inr (None, l)
      | _ # _ \<Rightarrow>
          (case DoublyLinkedList_remove (last l) l of
             Inl e \<Rightarrow> Inl e
           | Inr l1 \<Rightarrow> Inr (Some (last l), l1)))"

definition LRUCache_lld_get ::
  "'k ref \<Rightarrow> ('k, 'v) LRUCache_lld \<Rightarrow> error + ('v ref \<times> ('k, 'v) LRUCache_lld)" where
  "LRUCache_lld_get k c =
     (case fmlookup (LRUCache_lld.cache c) k of
        None \<Rightarrow> Inr (None, c)
      | Some node \<Rightarrow>
          (case DoublyLinkedList_moveToFront (Node.key node) (LRUCache_lld.dll c) of
             Inl e \<Rightarrow> Inl e
           | Inr l1 \<Rightarrow> Inr (Node.value node, c\<lparr>LRUCache_lld.dll := l1\<rparr>)))"

text \<open>
  In \<^verbatim>\<open>put\<close> the result of \<^verbatim>\<open>removeLast\<close> is used unchecked: \<^verbatim>\<open>lru.key\<close> throws when it
  is \<^verbatim>\<open>null\<close>.
\<close>

definition LRUCache_lld_put ::
  "'k ref \<Rightarrow> 'v ref \<Rightarrow> ('k, 'v) LRUCache_lld \<Rightarrow> error + ('k, 'v) LRUCache_lld" where
  "LRUCache_lld_put k v c =
     (case fmlookup (LRUCache_lld.cache c) k of
        Some existing \<Rightarrow>
          (case DoublyLinkedList_moveToFront (Node.key existing) (LRUCache_lld.dll c) of
             Inl e \<Rightarrow> Inl e
           | Inr l1 \<Rightarrow>
               Inr (c\<lparr>LRUCache_lld.cache :=
                         fmupd k (existing\<lparr>Node.value := v\<rparr>) (LRUCache_lld.cache c),
                      LRUCache_lld.dll := l1\<rparr>))
      | None \<Rightarrow>
          (case (if HashMap_size (LRUCache_lld.cache c) \<ge> sint (LRUCache_lld.capacity c)
                 then (case DoublyLinkedList_removeLast (LRUCache_lld.dll c) of
                         Inl e \<Rightarrow> Inl e
                       | Inr (None, l1) \<Rightarrow> Inl NullPointerException
                       | Inr (Some lru, l1) \<Rightarrow> Inr (fmdrop lru (LRUCache_lld.cache c), l1))
                 else Inr (LRUCache_lld.cache c, LRUCache_lld.dll c)) of
             Inl e \<Rightarrow> Inl e
           | Inr (cache1, l1) \<Rightarrow>
               let newNode = \<lparr>Node.key = k, Node.value = v\<rparr> in
               Inr (c\<lparr>LRUCache_lld.cache := fmupd k newNode cache1,
                      LRUCache_lld.dll := DoublyLinkedList_addFirst (Node.key newNode) l1\<rparr>)))"

definition LRUCache_lld_remove ::
  "'k ref \<Rightarrow> ('k, 'v) LRUCache_lld \<Rightarrow> error + ('k, 'v) LRUCache_lld" where
  "LRUCache_lld_remove k c =
     (case fmlookup (LRUCache_lld.cache c) k of
        None \<Rightarrow> Inr (c\<lparr>LRUCache_lld.cache := fmdrop k (LRUCache_lld.cache c)\<rparr>)
      | Some node \<Rightarrow>
          (case DoublyLinkedList_remove (Node.key node) (LRUCache_lld.dll c) of
             Inl e \<Rightarrow> Inl e
           | Inr l1 \<Rightarrow>
               Inr (c\<lparr>LRUCache_lld.cache := fmdrop k (LRUCache_lld.cache c),
                      LRUCache_lld.dll := l1\<rparr>)))"




section \<open>\<^verbatim>\<open>LFUCache\<close>\<close>

text \<open>
  Keys, values and frequencies are Java \<^verbatim>\<open>int\<close>s. \<^verbatim>\<open>put\<close> and \<^verbatim>\<open>updateFrequency\<close> write
  the fields of a node that the key map and a frequency list both refer to, so the node
  objects are held once, in \<open>keyToNodeMap\<close>, and a frequency list (a
  \<^verbatim>\<open>DoublyLinkedList\<close>) is the list of its linked nodes from \<^verbatim>\<open>head.next\<close> to
  \<^verbatim>\<open>tail.prev\<close>, each node named by its \<^verbatim>\<open>key\<close> field.
\<close>

record CacheNode =
  key :: jint
  "value" :: jint
  frequency :: jint

record LFUCache =
  keyToNodeMap :: "(jint, CacheNode) fmap"
  frequencyToListMap :: "(jint, jint list) fmap"
  capacity :: jint
  minFrequency :: jint

definition LFUCache_init :: "jint \<Rightarrow> error + LFUCache" where
  "LFUCache_init cap =
     Inr \<lparr>LFUCache.keyToNodeMap = fmempty, LFUCache.frequencyToListMap = fmempty,
          LFUCache.capacity = cap, LFUCache.minFrequency = 0\<rparr>"

text \<open>
  \<^verbatim>\<open>removeNode\<close> on the links:
  \<^verbatim>\<open>prevNode = node.prev; nextNode = node.next; prevNode.next = nextNode; nextNode.prev = prevNode\<close>.
\<close>

definition LFUCache_removeNode_links :: "addr \<Rightarrow> heap \<Rightarrow> error + heap" where
  "LFUCache_removeNode_links node h =
     (let prevNode = prev (h node); nextNode = next (h node) in
      case set_next prevNode nextNode h of Inl e \<Rightarrow> Inl e | Inr h1 \<Rightarrow> set_prev nextNode prevNode h1)"

text \<open>
  \<^verbatim>\<open>removeNode\<close> takes no list: it unlinks the node from whichever list it is linked in,
  and dereferences a null \<^verbatim>\<open>prev\<close> when the node is linked in none.
\<close>

definition LFUCache_removeNode ::
  "'a \<Rightarrow> ('f, 'a list) fmap \<Rightarrow> error + ('f, 'a list) fmap" where
  "LFUCache_removeNode node flists =
     (if fBex (fmran flists) (\<lambda>l. node \<in> set l)
      then Inr (fmmap (remove1 node) flists)
      else Inl NullPointerException)"

text \<open>
  The links of \<^verbatim>\<open>addNodeToFrequencyList\<close>, once it has the list:
  \<^verbatim>\<open>nextNode = list.head.next; list.head.next = node; node.prev = list.head;\<close>
  \<^verbatim>\<open>node.next = nextNode; nextNode.prev = node\<close>.
\<close>

definition LFUCache_addNode_links :: "addr \<Rightarrow> addr \<Rightarrow> heap \<Rightarrow> error + heap" where
  "LFUCache_addNode_links head node h =
     (let nextNode = next (h head) in
      case set_next (Some head) (Some node) h of Inl e \<Rightarrow> Inl e | Inr h1 \<Rightarrow>
     (case set_prev (Some node) (Some head) h1 of Inl e \<Rightarrow> Inl e | Inr h2 \<Rightarrow>
     (case set_next (Some node) nextNode h2 of Inl e \<Rightarrow> Inl e | Inr h3 \<Rightarrow>
      set_prev nextNode (Some node) h3)))"

text \<open>
  \<^verbatim>\<open>addNodeToFrequencyList\<close> makes the list of the node's frequency if there is none, and
  links the node first in it.
\<close>

definition LFUCache_addNodeToFrequencyList :: "CacheNode \<Rightarrow> LFUCache \<Rightarrow> LFUCache" where
  "LFUCache_addNodeToFrequencyList node c =
     (let freq = CacheNode.frequency node;
          flists = (if fmlookup (LFUCache.frequencyToListMap c) freq = None
                    then fmupd freq [] (LFUCache.frequencyToListMap c)
                    else LFUCache.frequencyToListMap c);
          l = (case fmlookup flists freq of None \<Rightarrow> [] | Some l \<Rightarrow> l)
      in c\<lparr>LFUCache.frequencyToListMap := fmupd freq (CacheNode.key node # l) flists\<rparr>)"

text \<open>
  \<^verbatim>\<open>updateFrequency\<close> is given a node taken from \<open>keyToNodeMap\<close>; the write
  \<^verbatim>\<open>node.frequency++\<close> is a write to the map's entry for that node.
\<close>

definition LFUCache_updateFrequency :: "CacheNode \<Rightarrow> LFUCache \<Rightarrow> error + LFUCache" where
  "LFUCache_updateFrequency node c =
     (let currentFreq = CacheNode.frequency node in
      (case LFUCache_removeNode (CacheNode.key node) (LFUCache.frequencyToListMap c) of
         Inl e \<Rightarrow> Inl e
       | Inr flists1 \<Rightarrow>
          let node1 = node\<lparr>CacheNode.frequency := CacheNode.frequency node + 1\<rparr>;
              c1 = c\<lparr>LFUCache.keyToNodeMap := fmupd (CacheNode.key node) node1 (LFUCache.keyToNodeMap c),
                     LFUCache.frequencyToListMap := flists1\<rparr>
          in (case fmlookup flists1 currentFreq of
                None \<Rightarrow> Inl NullPointerException
              | Some l \<Rightarrow>
                  (let c2 = (if l = []
                             then c1\<lparr>LFUCache.frequencyToListMap := fmdrop currentFreq flists1,
                                     LFUCache.minFrequency :=
                                       (if LFUCache.minFrequency c1 = currentFreq
                                        then LFUCache.minFrequency c1 + 1
                                        else LFUCache.minFrequency c1)\<rparr>
                             else c1)
                   in Inr (LFUCache_addNodeToFrequencyList node1 c2)))))"

text \<open>\<^verbatim>\<open>get\<close> returns the \<^verbatim>\<open>int\<close> \<open>-1\<close> for a key that is not in the map.\<close>

definition LFUCache_get :: "jint \<Rightarrow> LFUCache \<Rightarrow> error + (jint \<times> LFUCache)" where
  "LFUCache_get k c =
     (case fmlookup (LFUCache.keyToNodeMap c) k of
        None \<Rightarrow> Inr (- 1, c)
      | Some node \<Rightarrow>
          (case LFUCache_updateFrequency node c of
             Inl e \<Rightarrow> Inl e
           | Inr c1 \<Rightarrow> Inr (CacheNode.value node, c1)))"

text \<open>
  The eviction branch of \<^verbatim>\<open>put\<close>. \<^verbatim>\<open>frequencyToListMap.get(minFrequency)\<close> is \<^verbatim>\<open>null\<close>
  when there is no such list, and \<^verbatim>\<open>tail.prev\<close> is the sentinel \<^verbatim>\<open>head\<close> when the list is
  empty, whose unlinking throws.
\<close>

definition LFUCache_evict :: "LFUCache \<Rightarrow> error + LFUCache" where
  "LFUCache_evict c =
     (case fmlookup (LFUCache.frequencyToListMap c) (LFUCache.minFrequency c) of
        None \<Rightarrow> Inl NullPointerException
      | Some [] \<Rightarrow> Inl NullPointerException
      | Some (x # xs) \<Rightarrow>
          let nodeToRemove = last (x # xs);
              keys1 = fmdrop nodeToRemove (LFUCache.keyToNodeMap c)
          in (case LFUCache_removeNode nodeToRemove (LFUCache.frequencyToListMap c) of
                Inl e \<Rightarrow> Inl e
              | Inr flists1 \<Rightarrow>
                  (case fmlookup flists1 (LFUCache.minFrequency c) of
                     None \<Rightarrow> Inl NullPointerException
                   | Some l \<Rightarrow>
                       Inr (c\<lparr>LFUCache.keyToNodeMap := keys1,
                              LFUCache.frequencyToListMap :=
                                (if l = [] then fmdrop (LFUCache.minFrequency c) flists1
                                 else flists1)\<rparr>))))"

definition LFUCache_put :: "jint \<Rightarrow> jint \<Rightarrow> LFUCache \<Rightarrow> error + LFUCache" where
  "LFUCache_put k v c =
     (if LFUCache.capacity c = 0 then Inr c
      else case fmlookup (LFUCache.keyToNodeMap c) k of
        Some node \<Rightarrow>
          let node1 = node\<lparr>CacheNode.value := v\<rparr> in
          LFUCache_updateFrequency node1
            (c\<lparr>LFUCache.keyToNodeMap := fmupd k node1 (LFUCache.keyToNodeMap c)\<rparr>)
      | None \<Rightarrow>
          (case (if HashMap_size (LFUCache.keyToNodeMap c) = sint (LFUCache.capacity c)
                 then LFUCache_evict c else Inr c) of
             Inl e \<Rightarrow> Inl e
           | Inr c1 \<Rightarrow>
               let newNode = \<lparr>CacheNode.key = k, CacheNode.value = v, CacheNode.frequency = 1\<rparr> in
               Inr (LFUCache_addNodeToFrequencyList newNode
                      (c1\<lparr>LFUCache.minFrequency := 1,
                           LFUCache.keyToNodeMap := fmupd k newNode (LFUCache.keyToNodeMap c1)\<rparr>))))"

datatype LFUCache_op = LFU_put jint jint | LFU_get jint

fun LFUCache_step :: "LFUCache_op \<Rightarrow> LFUCache \<Rightarrow> error + LFUCache" where
  "LFUCache_step (LFU_put k v) c = LFUCache_put k v c"
| "LFUCache_step (LFU_get k) c = map_sum id snd (LFUCache_get k c)"

fun LFUCache_run :: "LFUCache_op list \<Rightarrow> error + LFUCache \<Rightarrow> error + LFUCache" where
  "LFUCache_run [] r = r"
| "LFUCache_run (x # xs) (Inl e) = Inl e"
| "LFUCache_run (x # xs) (Inr c) = LFUCache_run xs (LFUCache_step x c)"

section \<open>Invariants\<close>

subsection \<open>Chains\<close>

text \<open>
  The store once \<open>node\<close> is linked right behind \<open>head\<close>, and once \<open>node\<close> is unlinked from
  between its neighbours.
\<close>

definition links_added :: "addr \<Rightarrow> addr \<Rightarrow> heap \<Rightarrow> heap" where
  "links_added head node h =
     (case next (h head) of
        None \<Rightarrow> h
      | Some c \<Rightarrow> h(node := (h node)\<lparr>prev := Some head, next := Some c\<rparr>,
                    c := (h c)\<lparr>prev := Some node\<rparr>,
                    head := (h head)\<lparr>next := Some node\<rparr>))"

definition links_removed :: "addr \<Rightarrow> heap \<Rightarrow> heap" where
  "links_removed node h =
     (case (prev (h node), next (h node)) of
        (Some p, Some n) \<Rightarrow> h(p := (h p)\<lparr>next := Some n\<rparr>, n := (h n)\<lparr>prev := Some p\<rparr>)
      | _ \<Rightarrow> h)"

subsection \<open>\<^verbatim>\<open>LRUCache<T>\<close>\<close>

text \<open>
  Map and chain hold the same nodes: the chain has one node per key, the map sends the
  key of each node of the chain to that node, and every key of the map is the key of a
  node of the chain. The chain is never longer than the capacity (than 0 when the
  capacity is negative).
\<close>

definition LRUCache_linked :: "('t ref, 't NodeEntry) fmap \<Rightarrow> 't NodeEntry list \<Rightarrow> bool" where
  "LRUCache_linked m l \<longleftrightarrow>
     distinct (map NodeEntry.key l) \<and>
     (\<forall>n \<in> set l. fmlookup m (NodeEntry.key n) = Some n) \<and>
     fmdom' m \<subseteq> NodeEntry.key ` set l"

definition LRUCache_inv :: "'t LRUCache \<Rightarrow> bool" where
  "LRUCache_inv c \<longleftrightarrow>
     LRUCache_linked (LRUCache.cache c) (LRUCache.head_to_tail c) \<and>
     int (length (LRUCache.head_to_tail c)) \<le> max 0 (sint (LRUCache.capacity c))"

subsection \<open>\<^verbatim>\<open>LRUCache<K, V>\<close>\<close>


subsection \<open>\<^verbatim>\<open>LFUCache\<close>\<close>

text \<open>
  Every frequency list of the map is non-empty, has no node twice and holds nodes of the
  key map whose \<^verbatim>\<open>frequency\<close> field is the key of the list; every node of the key map is
  stored under its own key and is linked in the list of its frequency.
\<close>

definition LFUCache_linked :: "(jint, CacheNode) fmap \<Rightarrow> (jint, jint list) fmap \<Rightarrow> bool" where
  "LFUCache_linked m fl \<longleftrightarrow>
     (\<forall>f l. fmlookup fl f = Some l \<longrightarrow>
        l \<noteq> [] \<and> distinct l \<and>
        (\<forall>k \<in> set l. \<exists>n. fmlookup m k = Some n \<and> CacheNode.frequency n = f)) \<and>
     (\<forall>k n. fmlookup m k = Some n \<longrightarrow>
        CacheNode.key n = k \<and>
        (\<exists>l. fmlookup fl (CacheNode.frequency n) = Some l \<and> k \<in> set l))"

text \<open>
  A cache that holds a key has a list for \<open>minFrequency\<close>, and a cache of non-negative
  capacity holds at most that many keys.
\<close>

definition LFUCache_inv :: "LFUCache \<Rightarrow> bool" where
  "LFUCache_inv c \<longleftrightarrow>
     LFUCache_linked (LFUCache.keyToNodeMap c) (LFUCache.frequencyToListMap c) \<and>
     (fmdom' (LFUCache.keyToNodeMap c) \<noteq> {} \<longrightarrow>
        fmlookup (LFUCache.frequencyToListMap c) (LFUCache.minFrequency c) \<noteq> None) \<and>
     (0 \<le> sint (LFUCache.capacity c) \<longrightarrow>
        HashMap_size (LFUCache.keyToNodeMap c) \<le> sint (LFUCache.capacity c))"

text \<open>
  The frequency lists once the node \<open>k\<close>, linked in the list of \<open>f\<close>, is unlinked and the
  list of \<open>f\<close> is deleted if that emptied it; and once \<open>k\<close> is linked first in the list
  of \<open>f\<close>.
\<close>

definition LFUCache_unlinked :: "jint \<Rightarrow> jint \<Rightarrow> (jint, jint list) fmap \<Rightarrow> (jint, jint list) fmap" where
  "LFUCache_unlinked k f fl =
     (if map_option (remove1 k) (fmlookup fl f) = Some []
      then fmdrop f (fmmap (remove1 k) fl) else fmmap (remove1 k) fl)"

definition LFUCache_linked_first :: "jint \<Rightarrow> jint \<Rightarrow> (jint, jint list) fmap \<Rightarrow> (jint, jint list) fmap" where
  "LFUCache_linked_first k f fl = fmupd f (k # (case fmlookup fl f of None \<Rightarrow> [] | Some l \<Rightarrow> l)) fl"

text \<open>
  The three state changes of the cache, in closed form: \<^verbatim>\<open>updateFrequency\<close> of a node of the
  cache, the eviction of the node \<open>x\<close>, and the insertion of a new key.
\<close>

definition LFUCache_promoted :: "CacheNode \<Rightarrow> LFUCache \<Rightarrow> LFUCache" where
  "LFUCache_promoted n c =
     c\<lparr>LFUCache.keyToNodeMap :=
         fmupd (CacheNode.key n) (n\<lparr>CacheNode.frequency := CacheNode.frequency n + 1\<rparr>)
           (LFUCache.keyToNodeMap c),
       LFUCache.frequencyToListMap :=
         LFUCache_linked_first (CacheNode.key n) (CacheNode.frequency n + 1)
           (LFUCache_unlinked (CacheNode.key n) (CacheNode.frequency n) (LFUCache.frequencyToListMap c)),
       LFUCache.minFrequency :=
         (if fmlookup (LFUCache_unlinked (CacheNode.key n) (CacheNode.frequency n) (LFUCache.frequencyToListMap c))
               (CacheNode.frequency n) = None
             \<and> LFUCache.minFrequency c = CacheNode.frequency n
          then LFUCache.minFrequency c + 1 else LFUCache.minFrequency c)\<rparr>"

definition LFUCache_evicted :: "jint \<Rightarrow> LFUCache \<Rightarrow> LFUCache" where
  "LFUCache_evicted x c =
     c\<lparr>LFUCache.keyToNodeMap := fmdrop x (LFUCache.keyToNodeMap c),
       LFUCache.frequencyToListMap :=
         LFUCache_unlinked x (LFUCache.minFrequency c) (LFUCache.frequencyToListMap c)\<rparr>"

definition LFUCache_inserted :: "jint \<Rightarrow> jint \<Rightarrow> LFUCache \<Rightarrow> LFUCache" where
  "LFUCache_inserted k v c =
     c\<lparr>LFUCache.minFrequency := 1,
       LFUCache.keyToNodeMap :=
         fmupd k \<lparr>CacheNode.key = k, CacheNode.value = v, CacheNode.frequency = 1\<rparr>
           (LFUCache.keyToNodeMap c),
       LFUCache.frequencyToListMap := LFUCache_linked_first k 1 (LFUCache.frequencyToListMap c)\<rparr>"

text \<open>
  The frequencies that have a non-empty list, and the property that \<open>minFrequency\<close> is the
  smallest of them. Frequencies are Java \<^verbatim>\<open>int\<close>s, compared as signed numbers.
\<close>

definition LFUCache_frequencies :: "LFUCache \<Rightarrow> jint set" where
  "LFUCache_frequencies c =
     {f \<in> fmdom' (LFUCache.frequencyToListMap c). fmlookup (LFUCache.frequencyToListMap c) f \<noteq> Some []}"

definition LFUCache_minFrequency_ok :: "LFUCache \<Rightarrow> bool" where
  "LFUCache_minFrequency_ok c \<longleftrightarrow>
     LFUCache_frequencies c \<noteq> {} \<and>
     sint (LFUCache.minFrequency c) = Min (sint ` LFUCache_frequencies c)"

text \<open>
  Every frequency that has a list lies between 1 and \<open>b\<close> and is not below \<open>minFrequency\<close>.
\<close>

definition LFUCache_counts_within :: "int \<Rightarrow> LFUCache \<Rightarrow> bool" where
  "LFUCache_counts_within b c \<longleftrightarrow>
     fmpred (\<lambda>f l. 1 \<le> sint f \<and> sint f \<le> b \<and> sint (LFUCache.minFrequency c) \<le> sint f)
       (LFUCache.frequencyToListMap c)"

text \<open>A cache of capacity 2 that holds key 1, used once, and key 2, whose counter is \<open>f\<close>.\<close>

definition LFUCache_two_keys :: "jint \<Rightarrow> LFUCache" where
  "LFUCache_two_keys f =
     \<lparr>LFUCache.keyToNodeMap =
        fmupd 2 \<lparr>CacheNode.key = 2, CacheNode.value = 2, CacheNode.frequency = f\<rparr>
          (fmupd 1 \<lparr>CacheNode.key = 1, CacheNode.value = 1, CacheNode.frequency = 1\<rparr> fmempty),
      LFUCache.frequencyToListMap = fmupd f [2] (fmupd 1 [1] fmempty),
      LFUCache.capacity = 2, LFUCache.minFrequency = 1\<rparr>"

text \<open>
  The same cache once the counter of key 2 has gone all the way round and is 1 again: key 2
  has joined key 1 in the list of frequency 1, at its head.
\<close>

definition LFUCache_two_keys_round :: LFUCache where
  "LFUCache_two_keys_round =
     \<lparr>LFUCache.keyToNodeMap =
        fmupd 2 \<lparr>CacheNode.key = 2, CacheNode.value = 2, CacheNode.frequency = 1\<rparr>
          (fmupd 1 \<lparr>CacheNode.key = 1, CacheNode.value = 1, CacheNode.frequency = 1\<rparr> fmempty),
      LFUCache.frequencyToListMap = fmupd 1 [2, 1] fmempty,
      LFUCache.capacity = 2, LFUCache.minFrequency = 1\<rparr>"

text \<open>And after one \<^verbatim>\<open>get(1)\<close> more: key 1 is alone at frequency 2, key 2 alone at frequency 1.\<close>

definition LFUCache_two_keys_passed :: LFUCache where
  "LFUCache_two_keys_passed =
     \<lparr>LFUCache.keyToNodeMap =
        fmupd 1 \<lparr>CacheNode.key = 1, CacheNode.value = 1, CacheNode.frequency = 2\<rparr>
          (fmupd 2 \<lparr>CacheNode.key = 2, CacheNode.value = 2, CacheNode.frequency = 1\<rparr> fmempty),
      LFUCache.frequencyToListMap = fmupd 2 [1] (fmupd 1 [2] fmempty),
      LFUCache.capacity = 2, LFUCache.minFrequency = 1\<rparr>"

text \<open>
  The calls of a sequence that are made on key \<open>k\<close>, \<^verbatim>\<open>put\<close> and \<^verbatim>\<open>get\<close> alike, and their
  number: how often the sequence uses the key.
\<close>

fun LFUCache_op_on :: "jint \<Rightarrow> LFUCache_op \<Rightarrow> bool" where
  "LFUCache_op_on k (LFU_put j v) = (j = k)"
| "LFUCache_op_on k (LFU_get j) = (j = k)"

definition LFUCache_uses :: "jint \<Rightarrow> LFUCache_op list \<Rightarrow> nat" where
  "LFUCache_uses k xs = length (filter (LFUCache_op_on k) xs)"

section \<open>The chains are lists\<close>

lemma in_set_tl: "x \<in> set (tl xs) \<Longrightarrow> x \<in> set xs"
  by (cases xs) auto

lemma linked_frame:
  "(\<forall>a \<in> set (butlast us). next (h' a) = next (h a)) \<Longrightarrow>
   (\<forall>a \<in> set (tl us). prev (h' a) = prev (h a)) \<Longrightarrow> linked h' us = linked h us"
  by (induction h us rule: linked.induct) auto

lemma linked_append:
  "linked h (us @ v # ws) \<longleftrightarrow> linked h (us @ [v]) \<and> linked h (v # ws)"
  by (induction h us rule: linked.induct) auto

lemma linked_last:
  "linked h (us @ [a, b]) \<Longrightarrow> next (h a) = Some b \<and> prev (h b) = Some a"
  using linked_append[of h us a "[b]"] by simp

lemma chain_frame:
  "(\<forall>a \<in> set (head # xs @ [tail]). h' a = h a) \<Longrightarrow> chain h' head tail xs = chain h head tail xs"
proof -
  assume a: "\<forall>a \<in> set (head # xs @ [tail]). h' a = h a"
  then have "linked h' (head # xs @ [tail]) = linked h (head # xs @ [tail])"
    by (intro linked_frame) (auto dest: in_set_butlastD in_set_tl)
  with a show ?thesis by (simp add: chain_def)
qed

lemma chain_tail_prev:
  assumes "chain h head tail xs"
  shows "prev (h tail) = Some (if xs = [] then head else last xs)"
proof (cases xs rule: rev_cases)
  case Nil
  then show ?thesis using assms by (simp add: chain_def)
next
  case (snoc ys y)
  then have "linked h ((head # ys) @ [y, tail])" using assms by (simp add: chain_def)
  from linked_last[OF this] snoc show ?thesis by simp
qed

lemma chain_first:
  assumes "chain h head tail xs"
  obtains c where "next (h head) = Some c" "c \<in> set (xs @ [tail])" "c \<noteq> head"
proof -
  obtain c cs where cs: "xs @ [tail] = c # cs" by (cases "xs @ [tail]") auto
  have "next (h head) = Some c" using assms unfolding chain_def cs by simp
  moreover have "c \<in> set (xs @ [tail])" unfolding cs by simp
  moreover have "c \<noteq> head" using assms unfolding chain_def cs by auto
  ultimately show ?thesis using that by blast
qed

lemma chain_added:
  assumes "chain h head tail xs" "node \<notin> set (head # xs @ [tail])"
  shows "chain (links_added head node h) head tail (node # xs)"
    and "\<forall>a. a \<notin> insert node (set (head # xs @ [tail])) \<longrightarrow> links_added head node h a = h a"
proof -
  obtain c cs where cs: "xs @ [tail] = c # cs" by (cases "xs @ [tail]") auto
  have l: "next (h head) = Some c" "prev (h c) = Some head" "linked h (c # cs)"
    using assms(1) unfolding chain_def cs by simp_all
  have d: "distinct (head # c # cs)" "node \<notin> set (head # c # cs)"
    using assms(1,2) unfolding chain_def cs[symmetric] by simp_all
  let ?h' = "links_added head node h"
  have h': "?h' = h(node := (h node)\<lparr>prev := Some head, next := Some c\<rparr>,
                    c := (h c)\<lparr>prev := Some node\<rparr>, head := (h head)\<lparr>next := Some node\<rparr>)"
    using l(1) by (simp add: links_added_def)
  have "linked ?h' (c # cs) = linked h (c # cs)"
    unfolding h' using d by (intro linked_frame) (auto dest: in_set_butlastD in_set_tl)
  then have "linked ?h' (head # node # c # cs)" using l d unfolding h' by auto
  moreover have "tail \<in> set (c # cs)" using cs by (metis in_set_conv_decomp)
  then have "prev (?h' head) = None" "next (?h' tail) = None"
    using assms(1) d unfolding chain_def h' by auto
  ultimately show "chain ?h' head tail (node # xs)"
    using d unfolding chain_def cs[symmetric] by (simp add: cs)
  show "\<forall>a. a \<notin> insert node (set (head # xs @ [tail])) \<longrightarrow> ?h' a = h a"
    unfolding h' using cs by (metis fun_upd_apply insert_iff list.set_intros(1,2))
qed

lemma chain_neighbours:
  assumes "chain h head tail xs" "node \<in> set xs"
  obtains p n where "prev (h node) = Some p" "next (h node) = Some n"
    "p \<in> set (head # xs)" "n \<in> set (xs @ [tail])" "p \<noteq> node" "n \<noteq> node" "p \<noteq> n"
proof -
  from assms(2) obtain ys zs where xs: "xs = ys @ node # zs" by (auto dest: split_list)
  obtain ps p where ps: "head # ys = ps @ [p]" by (cases "head # ys" rule: rev_cases) auto
  obtain n ns where ns: "zs @ [tail] = n # ns" by (cases "zs @ [tail]") auto
  have us: "head # xs @ [tail] = ps @ [p, node] @ n # ns"
    using xs ps ns by (metis append.assoc append_Cons append_Nil)
  have l: "linked h (ps @ [p, node] @ n # ns)" and d: "distinct (ps @ [p, node] @ n # ns)"
    using assms(1) unfolding chain_def us by simp_all
  have "linked h (ps @ [p, node])" "linked h (node # n # ns)"
    using l linked_append[of h "ps @ [p]" node "n # ns"] by simp_all
  then have "prev (h node) = Some p" "next (h node) = Some n"
    using linked_last[of h ps p node] by simp_all
  moreover have "p \<in> set (head # xs)" using ps xs by (metis in_set_conv_decomp append_Cons set_append UnI1)
  moreover have "n \<in> set (xs @ [tail])" using ns xs by (metis Un_iff list.set_intros(1,2) set_append)
  moreover have "p \<noteq> node" "n \<noteq> node" "p \<noteq> n" using d by auto
  ultimately show ?thesis using that by blast
qed

lemma chain_removed:
  assumes "chain h head tail xs" "node \<in> set xs"
  shows "chain (links_removed node h) head tail (remove1 node xs)"
    and "\<forall>a. a \<notin> set (head # xs @ [tail]) \<longrightarrow> links_removed node h a = h a"
proof -
  from assms(2) obtain ys zs where xs: "xs = ys @ node # zs" by (auto dest: split_list)
  obtain ps p where ps: "head # ys = ps @ [p]" by (cases "head # ys" rule: rev_cases) auto
  obtain n ns where ns: "zs @ [tail] = n # ns" by (cases "zs @ [tail]") auto
  have us: "head # xs @ [tail] = ps @ [p, node] @ n # ns"
    using xs ps ns by (metis append.assoc append_Cons append_Nil)
  have us': "head # (ys @ zs) @ [tail] = ps @ [p] @ n # ns"
    using ps ns by (metis append.assoc append_Cons)
  have l: "linked h (ps @ [p, node] @ n # ns)" and d: "distinct (ps @ [p, node] @ n # ns)"
    using assms(1) unfolding chain_def us by simp_all
  have l1: "linked h (ps @ [p, node])" and l2: "linked h (node # n # ns)"
    using l linked_append[of h "ps @ [p]" node "n # ns"] by simp_all
  have pn: "prev (h node) = Some p" "next (h node) = Some n"
    using l1 l2 linked_last[of h ps p node] by simp_all
  let ?h' = "links_removed node h"
  have h': "?h' = h(p := (h p)\<lparr>next := Some n\<rparr>, n := (h n)\<lparr>prev := Some p\<rparr>)"
    using pn by (simp add: links_removed_def)
  have a: "linked h (ps @ [p])" using l1 linked_append[of h ps p "[node]"] by simp
  have "linked ?h' (ps @ [p]) = linked h (ps @ [p])"
    unfolding h' using d by (intro linked_frame) (auto dest: in_set_butlastD in_set_tl)
  moreover have "linked ?h' (n # ns) = linked h (n # ns)"
    unfolding h' using d by (intro linked_frame) (auto dest: in_set_butlastD in_set_tl)
  moreover have "linked ?h' [p, n]" unfolding h' using d by auto
  ultimately have "linked ?h' (ps @ [p] @ n # ns)"
    using a l2 linked_append[of ?h' "ps @ [p]" n ns] linked_append[of ?h' ps p "[n]"] by simp
  moreover have "distinct (ps @ [p] @ n # ns)" using d by auto
  moreover have "head \<in> set (ps @ [p])" "tail \<in> set (n # ns)"
    using ps ns by (metis list.set_intros(1), metis in_set_conv_decomp)
  then have "prev (?h' head) = None" "next (?h' tail) = None"
    using assms(1) d unfolding chain_def h' by auto
  moreover have "remove1 node xs = ys @ zs"
    using assms(1) unfolding chain_def xs by (simp add: remove1_append)
  ultimately show "chain ?h' head tail (remove1 node xs)"
    unfolding chain_def using us' by simp
  show "\<forall>a. a \<notin> set (head # xs @ [tail]) \<longrightarrow> ?h' a = h a"
    unfolding h' us by auto
qed

text \<open>
  The three versions of the insertion write the same links when the node is not yet in
  the chain, and the three versions of the removal when it is.
\<close>

lemma addNode_links_eq:
  assumes "chain h head tail xs" "node \<notin> set (head # xs @ [tail])"
  shows "LRUCache_addNode_links head node h = Inr (links_added head node h)"
    and "DoublyLinkedList_addFirst_links head node h = Inr (links_added head node h)"
    and "LFUCache_addNode_links head node h = Inr (links_added head node h)"
proof -
  from chain_first[OF assms(1)] obtain c where
    c: "next (h head) = Some c" "c \<in> set (xs @ [tail])" "c \<noteq> head" by blast
  have n: "node \<noteq> head" "node \<noteq> c" using assms(2) c(2) by auto
  show "LRUCache_addNode_links head node h = Inr (links_added head node h)"
    using c n
    by (auto simp: LRUCache_addNode_links_def links_added_def set_next_def set_prev_def Let_def
        fun_upd_twist)
  show "DoublyLinkedList_addFirst_links head node h = Inr (links_added head node h)"
    using c n
    by (auto simp: DoublyLinkedList_addFirst_links_def links_added_def set_next_def set_prev_def
        fun_upd_twist)
  show "LFUCache_addNode_links head node h = Inr (links_added head node h)"
    using c n
    by (auto simp: LFUCache_addNode_links_def links_added_def set_next_def set_prev_def Let_def
        fun_upd_twist)
qed

lemma remove_links_eq:
  assumes "chain h head tail xs" "node \<in> set xs"
  shows "LRUCache_remove_links node h = Inr (links_removed node h)"
    and "DoublyLinkedList_remove_links node h = Inr (links_removed node h)"
    and "LFUCache_removeNode_links node h = Inr (links_removed node h)"
proof -
  from chain_neighbours[OF assms] obtain p n where
    pn: "prev (h node) = Some p" "next (h node) = Some n" "p \<noteq> node" "n \<noteq> node" "p \<noteq> n"
    by blast
  show "LRUCache_remove_links node h = Inr (links_removed node h)"
    using pn
    by (auto simp: LRUCache_remove_links_def links_removed_def set_next_def set_prev_def Let_def)
  show "DoublyLinkedList_remove_links node h = Inr (links_removed node h)"
    using pn
    by (auto simp: DoublyLinkedList_remove_links_def links_removed_def set_next_def set_prev_def)
  show "LFUCache_removeNode_links node h = Inr (links_removed node h)"
    using pn
    by (auto simp: LFUCache_removeNode_links_def links_removed_def set_next_def set_prev_def Let_def)
qed

text \<open>
  So the list functions of the models are what the code does to the links. Linking a
  node that is not in the chain puts it first; unlinking a node of the chain takes
  it out; both leave every node outside the chain as it was, so that the other chains
  of an \<^verbatim>\<open>LFUCache\<close> stay what they are (\<open>chain_frame\<close>). Unlinking a node whose \<^verbatim>\<open>prev\<close> is
  \<^verbatim>\<open>null\<close>, as that of a new node and of \<^verbatim>\<open>head\<close> is, throws.
\<close>

lemma LRUCache_addNode_refines:
  assumes "chain h head tail xs" "node \<notin> set (head # xs @ [tail])"
  shows "\<exists>h'. LRUCache_addNode_links head node h = Inr h' \<and>
           chain h' head tail (LRUCache_addNode node xs) \<and>
           (\<forall>a. a \<notin> insert node (set (head # xs @ [tail])) \<longrightarrow> h' a = h a)"
  using addNode_links_eq(1)[OF assms] chain_added[OF assms]
  by (simp add: LRUCache_addNode_def)

lemma DoublyLinkedList_addFirst_refines:
  assumes "chain h head tail xs" "node \<notin> set (head # xs @ [tail])"
  shows "\<exists>h'. DoublyLinkedList_addFirst_links head node h = Inr h' \<and>
           chain h' head tail (DoublyLinkedList_addFirst node xs) \<and>
           (\<forall>a. a \<notin> insert node (set (head # xs @ [tail])) \<longrightarrow> h' a = h a)"
  using addNode_links_eq(2)[OF assms] chain_added[OF assms]
  by (simp add: DoublyLinkedList_addFirst_def)

lemma LFUCache_addNode_refines:
  assumes "chain h head tail xs" "node \<notin> set (head # xs @ [tail])"
  shows "\<exists>h'. LFUCache_addNode_links head node h = Inr h' \<and>
           chain h' head tail (node # xs) \<and>
           (\<forall>a. a \<notin> insert node (set (head # xs @ [tail])) \<longrightarrow> h' a = h a)"
  using addNode_links_eq(3)[OF assms] chain_added[OF assms]
  by simp

lemma LRUCache_remove_refines:
  assumes "chain h head tail xs" "node \<in> set xs"
  shows "\<exists>h' xs'. LRUCache_remove_links node h = Inr h' \<and> LRUCache_remove node xs = Inr xs' \<and>
           chain h' head tail xs' \<and> (\<forall>a. a \<notin> set (head # xs @ [tail]) \<longrightarrow> h' a = h a)"
  using remove_links_eq(1)[OF assms] chain_removed[OF assms] assms(2)
  by (simp add: LRUCache_remove_def)

lemma DoublyLinkedList_remove_refines:
  assumes "chain h head tail xs" "node \<in> set xs"
  shows "\<exists>h' xs'. DoublyLinkedList_remove_links node h = Inr h' \<and>
           DoublyLinkedList_remove node xs = Inr xs' \<and>
           chain h' head tail xs' \<and> (\<forall>a. a \<notin> set (head # xs @ [tail]) \<longrightarrow> h' a = h a)"
  using remove_links_eq(2)[OF assms] chain_removed[OF assms] assms(2)
  by (simp add: DoublyLinkedList_remove_def)

lemma LFUCache_removeNode_refines:
  assumes "chain h head tail xs" "node \<in> set xs"
  shows "\<exists>h'. LFUCache_removeNode_links node h = Inr h' \<and>
           chain h' head tail (remove1 node xs) \<and>
           (\<forall>a. a \<notin> set (head # xs @ [tail]) \<longrightarrow> h' a = h a)"
  using remove_links_eq(3)[OF assms] chain_removed[OF assms]
  by simp

lemma remove_links_unlinked:
  assumes "prev (h node) = None"
  shows "LRUCache_remove_links node h = Inl NullPointerException"
    and "DoublyLinkedList_remove_links node h = Inl NullPointerException"
    and "LFUCache_removeNode_links node h = Inl NullPointerException"
  using assms
  by (simp_all add: LRUCache_remove_links_def DoublyLinkedList_remove_links_def
      LFUCache_removeNode_links_def set_next_def Let_def)



section \<open>Lists and finite maps\<close>

lemma distinct_map_remove1:
  "distinct (map f l) \<Longrightarrow> distinct (map f (remove1 x l))"
  by (induction l) (auto dest!: set_remove1_subset[THEN subsetD])

lemma set_map_remove1:
  "distinct (map f l) \<Longrightarrow> x \<in> set l \<Longrightarrow> f ` set (remove1 x l) = f ` set l - {f x}"
  by (induction l) (auto simp: rev_image_eqI)

lemma Suc_length_remove1:
  "x \<in> set l \<Longrightarrow> Suc (length (remove1 x l)) = length l"
  by (induction l) auto

text \<open>Unlinking \<^verbatim>\<open>tail.prev\<close> takes the last node off a chain that has no node twice.\<close>

lemma remove1_last_distinct:
  "distinct l \<Longrightarrow> l \<noteq> [] \<Longrightarrow> remove1 (last l) l = butlast l"
  by (induction l) (auto simp: remove1_idem)

lemma fmupd_fmdrop_same: "fmupd k x (fmdrop k m) = fmupd k x m"
  by (rule fmap_ext) simp

lemma fmupd_fmdrop_lookup: "fmlookup m k = Some x \<Longrightarrow> fmupd k x (fmdrop k m) = m"
  by (rule fmap_ext) auto

section \<open>\<^verbatim>\<open>LRUCache<T>\<close>: the invariant holds\<close>

lemma LRUCache_linked_dom:
  assumes "LRUCache_linked m l"
  shows "fmdom' m = NodeEntry.key ` set l"
  using assms unfolding LRUCache_linked_def by (auto intro: fmdom'I)

lemma LRUCache_linked_size:
  assumes "LRUCache_linked m l"
  shows "HashMap_size m = int (length l)"
proof -
  have "card (NodeEntry.key ` set l) = length l"
    using assms distinct_card[of "map NodeEntry.key l"]
    unfolding LRUCache_linked_def by simp
  then show ?thesis
    by (simp add: HashMap_size_def LRUCache_linked_dom[OF assms])
qed

lemma LRUCache_linked_lookup:
  assumes "LRUCache_linked m l" "fmlookup m k = Some n"
  shows "n \<in> set l \<and> NodeEntry.key n = k"
proof -
  have "k \<in> fmdom' m" using assms(2) by (rule fmdom'I)
  then obtain n' where n': "n' \<in> set l" "NodeEntry.key n' = k"
    using assms(1) unfolding LRUCache_linked_def by auto
  then have "fmlookup m k = Some n'"
    using assms(1) unfolding LRUCache_linked_def by auto
  with assms(2) n' show ?thesis by simp
qed

lemma LRUCache_linked_add:
  assumes "LRUCache_linked m l" "k \<notin> fmdom' m" "NodeEntry.key n = k"
  shows "LRUCache_linked (fmupd k n m) (n # l)"
proof -
  have "k \<notin> NodeEntry.key ` set l"
    using assms(1,2) by (simp add: LRUCache_linked_dom)
  then show ?thesis
    using assms unfolding LRUCache_linked_def by auto
qed

lemma LRUCache_linked_del:
  assumes "LRUCache_linked m l" "n \<in> set l"
  shows "LRUCache_linked (fmdrop (NodeEntry.key n) m) (remove1 n l)"
proof -
  have d: "distinct (map NodeEntry.key l)" using assms(1) by (simp add: LRUCache_linked_def)
  have s: "NodeEntry.key ` set (remove1 n l) = NodeEntry.key ` set l - {NodeEntry.key n}"
    using set_map_remove1[OF d assms(2)] .
  show ?thesis
    unfolding LRUCache_linked_def
  proof (intro conjI)
    show "distinct (map NodeEntry.key (remove1 n l))"
      using d by (rule distinct_map_remove1)
    show "\<forall>x\<in>set (remove1 n l). fmlookup (fmdrop (NodeEntry.key n) m) (NodeEntry.key x) = Some x"
    proof
      fix x assume x: "x \<in> set (remove1 n l)"
      then have "NodeEntry.key x \<in> NodeEntry.key ` set l - {NodeEntry.key n}"
        using s by blast
      moreover have "x \<in> set l" using x set_remove1_subset by fast
      ultimately show "fmlookup (fmdrop (NodeEntry.key n) m) (NodeEntry.key x) = Some x"
        using assms(1) by (simp add: LRUCache_linked_def)
    qed
    show "fmdom' (fmdrop (NodeEntry.key n) m) \<subseteq> NodeEntry.key ` set (remove1 n l)"
      using assms(1) s by (auto simp: LRUCache_linked_def)
  qed
qed

lemma LRUCache_remove_ok:
  "n \<in> set l \<Longrightarrow> LRUCache_remove n l = Inr (remove1 n l)"
  by (simp add: LRUCache_remove_def)

text \<open>What get does to a stored key.\<close>

lemma LRUCache_get_hit:
  assumes "LRUCache_inv c" "fmlookup (LRUCache.cache c) k = Some n"
  shows "LRUCache_get k c =
           Inr (NodeEntry.value n, c\<lparr>LRUCache.head_to_tail := n # remove1 n (LRUCache.head_to_tail c)\<rparr>)"
    and "LRUCache_inv (c\<lparr>LRUCache.head_to_tail := n # remove1 n (LRUCache.head_to_tail c)\<rparr>)"
proof -
  let ?l = "LRUCache.head_to_tail c" and ?m = "LRUCache.cache c"
  have lk: "LRUCache_linked ?m ?l" using assms(1) by (simp add: LRUCache_inv_def)
  from LRUCache_linked_lookup[OF lk assms(2)]
  have n: "n \<in> set ?l" "NodeEntry.key n = k" by simp_all
  show "LRUCache_get k c = Inr (NodeEntry.value n, c\<lparr>LRUCache.head_to_tail := n # remove1 n ?l\<rparr>)"
    using assms(2) n by (simp add: LRUCache_get_def LRUCache_remove_ok LRUCache_addNode_def)
  have "LRUCache_linked (fmupd k n (fmdrop k ?m)) (n # remove1 n ?l)"
    using LRUCache_linked_del[OF lk n(1)] n(2) by (intro LRUCache_linked_add) simp_all
  then have "LRUCache_linked ?m (n # remove1 n ?l)"
    using assms(2) by (simp add: fmupd_fmdrop_lookup)
  then show "LRUCache_inv (c\<lparr>LRUCache.head_to_tail := n # remove1 n ?l\<rparr>)"
    using assms(1) Suc_length_remove1[OF n(1)] by (simp add: LRUCache_inv_def)
qed

lemma LRUCache_get_miss:
  "fmlookup (LRUCache.cache c) k = None \<Longrightarrow> LRUCache_get k c = Inr (None, c)"
  by (simp add: LRUCache_get_def)

text \<open>What put does to a stored key: no eviction.\<close>

lemma LRUCache_put_present:
  assumes "LRUCache_inv c" "fmlookup (LRUCache.cache c) k = Some n"
  shows "LRUCache_put k v c =
           Inr (c\<lparr>LRUCache.cache := fmupd k \<lparr>NodeEntry.key = k, NodeEntry.value = v\<rparr> (LRUCache.cache c),
                  LRUCache.head_to_tail :=
                    \<lparr>NodeEntry.key = k, NodeEntry.value = v\<rparr> # remove1 n (LRUCache.head_to_tail c)\<rparr>)"
    (is "_ = Inr ?c'")
    and "LRUCache_inv (c\<lparr>LRUCache.cache := fmupd k \<lparr>NodeEntry.key = k, NodeEntry.value = v\<rparr> (LRUCache.cache c),
                  LRUCache.head_to_tail :=
                    \<lparr>NodeEntry.key = k, NodeEntry.value = v\<rparr> # remove1 n (LRUCache.head_to_tail c)\<rparr>)"
proof -
  let ?l = "LRUCache.head_to_tail c" and ?m = "LRUCache.cache c"
  let ?new = "\<lparr>NodeEntry.key = k, NodeEntry.value = v\<rparr>"
  have lk: "LRUCache_linked ?m ?l" using assms(1) by (simp add: LRUCache_inv_def)
  from LRUCache_linked_lookup[OF lk assms(2)]
  have n: "n \<in> set ?l" "NodeEntry.key n = k" by simp_all
  have "LRUCache_linked (fmupd k ?new (fmdrop k ?m)) (?new # remove1 n ?l)"
    using LRUCache_linked_del[OF lk n(1)] n(2) by (intro LRUCache_linked_add) simp_all
  then have lk': "LRUCache_linked (fmupd k ?new ?m) (?new # remove1 n ?l)"
    by (simp add: fmupd_fmdrop_same)
  have len: "int (length (?new # remove1 n ?l)) \<le> max 0 (sint (LRUCache.capacity c))"
    using assms(1) Suc_length_remove1[OF n(1)] by (simp add: LRUCache_inv_def)
  then have "\<not> sint (LRUCache.capacity c) < HashMap_size (fmupd k ?new ?m)"
    using LRUCache_linked_size[OF lk'] by simp
  then show "LRUCache_put k v c = Inr ?c'"
    using assms(2) n(1) by (simp add: LRUCache_put_def LRUCache_remove_ok LRUCache_addNode_def Let_def)
  show "LRUCache_inv ?c'"
    using lk' len by (simp add: LRUCache_inv_def)
qed

text \<open>What put does to a key that is not stored.\<close>

lemma LRUCache_put_absent:
  assumes "LRUCache_inv c" "fmlookup (LRUCache.cache c) k = None"
  shows "\<exists>c'. LRUCache_put k v c = Inr c' \<and> LRUCache_inv c' \<and>
           LRUCache.capacity c' = LRUCache.capacity c"
proof -
  let ?l = "LRUCache.head_to_tail c" and ?m = "LRUCache.cache c"
  let ?new = "\<lparr>NodeEntry.key = k, NodeEntry.value = v\<rparr>"
  have lk: "LRUCache_linked ?m ?l" using assms(1) by (simp add: LRUCache_inv_def)
  have k: "k \<notin> fmdom' ?m" using assms(2) by (simp add: fmdom'_notI)
  have lk1: "LRUCache_linked (fmupd k ?new ?m) (?new # ?l)"
    using lk k by (intro LRUCache_linked_add) simp_all
  have sz: "HashMap_size (fmupd k ?new ?m) = 1 + int (length ?l)"
    using LRUCache_linked_size[OF lk1] by simp
  show ?thesis
  proof (cases "sint (LRUCache.capacity c) < 1 + int (length ?l)")
    case False
    then have "LRUCache_put k v c =
        Inr (c\<lparr>LRUCache.cache := fmupd k ?new ?m, LRUCache.head_to_tail := ?new # ?l\<rparr>)"
      using assms(2) sz by (simp add: LRUCache_put_def LRUCache_addNode_def Let_def)
    moreover have "LRUCache_inv (c\<lparr>LRUCache.cache := fmupd k ?new ?m, LRUCache.head_to_tail := ?new # ?l\<rparr>)"
      using lk1 False by (simp add: LRUCache_inv_def)
    ultimately show ?thesis by simp
  next
    case True
    let ?d = "last (?new # ?l)"
    let ?c' = "c\<lparr>LRUCache.cache := fmdrop (NodeEntry.key ?d) (fmupd k ?new ?m),
                    LRUCache.head_to_tail := remove1 ?d (?new # ?l)\<rparr>"
    have d: "?d \<in> set (?new # ?l)" by (rule last_in_set) simp
    have "LRUCache_put k v c = Inr ?c'"
      using assms(2) sz True d
      by (simp add: LRUCache_put_def LRUCache_addNode_def LRUCache_remove_ok Let_def del: last.simps remove1.simps)
    moreover have "LRUCache_linked (LRUCache.cache ?c') (LRUCache.head_to_tail ?c')"
      using LRUCache_linked_del[OF lk1 d] by simp
    moreover have "int (length (LRUCache.head_to_tail ?c')) \<le> max 0 (sint (LRUCache.capacity ?c'))"
      using assms(1) Suc_length_remove1[OF d] by (simp add: LRUCache_inv_def)
    ultimately show ?thesis by (simp add: LRUCache_inv_def)
  qed
qed

lemma LRUCache_inv_init: "LRUCache_init cap = Inr c \<Longrightarrow> LRUCache_inv c \<and> LRUCache.capacity c = cap"
  by (auto simp: LRUCache_init_def LRUCache_inv_def LRUCache_linked_def)

lemma LRUCache_inv_step:
  assumes "LRUCache_inv c"
  shows "\<exists>c'. LRUCache_step x c = Inr c' \<and> LRUCache_inv c' \<and> LRUCache.capacity c' = LRUCache.capacity c"
proof (cases x)
  case (LRU_put k v)
  show ?thesis
  proof (cases "fmlookup (LRUCache.cache c) k")
    case None
    then show ?thesis using LRUCache_put_absent[OF assms None] LRU_put by simp
  next
    case (Some n)
    then show ?thesis using LRUCache_put_present[OF assms Some] LRU_put by simp
  qed
next
  case (LRU_get k)
  show ?thesis
  proof (cases "fmlookup (LRUCache.cache c) k")
    case None
    then show ?thesis using LRUCache_get_miss[OF None] LRU_get assms by simp
  next
    case (Some n)
    then show ?thesis using LRUCache_get_hit[OF assms Some] LRU_get by simp
  qed
qed

lemma LRUCache_inv_run:
  assumes "LRUCache_inv c"
  shows "\<exists>c'. LRUCache_run xs (Inr c) = Inr c' \<and> LRUCache_inv c' \<and> LRUCache.capacity c' = LRUCache.capacity c"
  using assms
proof (induction xs arbitrary: c)
  case Nil
  then show ?case by simp
next
  case (Cons x xs)
  from LRUCache_inv_step[OF Cons.prems, of x] obtain c1 where
    c1: "LRUCache_step x c = Inr c1" "LRUCache_inv c1" "LRUCache.capacity c1 = LRUCache.capacity c"
    by blast
  from Cons.IH[OF c1(2)] c1 show ?case by simp
qed



section \<open>\<^verbatim>\<open>LRUCache<K, V>\<close>: the invariant holds\<close>









lemma fmdrop_absent: "fmlookup m k = None \<Longrightarrow> fmdrop k m = m"
  by (rule fmap_ext) auto

lemma LRUCache_lld_remove_absent:
  "fmlookup (LRUCache_lld.cache c) k = None \<Longrightarrow> LRUCache_lld_remove k c = Inr c"
  by (simp add: LRUCache_lld_remove_def fmdrop_absent)








section \<open>\<^verbatim>\<open>LFUCache\<close>: the invariant holds\<close>

text \<open>The frequency lists once node k, linked in the list of f, is LFUCache_unlinked and that list
  is deleted if it became empty.\<close>

lemma LFUCache_linked_notin:
  assumes "LFUCache_linked m fl" "fmlookup m k = Some n" "fmlookup fl g = Some l0"
    "g \<noteq> CacheNode.frequency n"
  shows "k \<notin> set l0"
  using assms unfolding LFUCache_linked_def by fastforce

lemma LFUCache_linked_fresh:
  assumes "LFUCache_linked m fl" "fmlookup m k = None" "fmlookup fl g = Some l0"
  shows "k \<notin> set l0"
  using assms unfolding LFUCache_linked_def by fastforce

lemma LFUCache_removeNode_ok:
  assumes "fmlookup fl f = Some l" "k \<in> set l"
  shows "LFUCache_removeNode k fl = Inr (fmmap (remove1 k) fl)"
proof -
  have "l |\<in>| fmran fl" using assms(1) by (rule fmranI)
  then have "fBex (fmran fl) (\<lambda>l. k \<in> set l)" using assms(2) by blast
  then show ?thesis by (simp add: LFUCache_removeNode_def)
qed

lemma LFUCache_unlinked_lookup:
  assumes "LFUCache_linked m fl" "fmlookup m k = Some n"
  shows "fmlookup (LFUCache_unlinked k (CacheNode.frequency n) fl) g =
           (if g = CacheNode.frequency n
            then (case fmlookup fl g of None \<Rightarrow> None
                  | Some l \<Rightarrow> if remove1 k l = [] then None else Some (remove1 k l))
            else fmlookup fl g)"
proof (cases "g = CacheNode.frequency n")
  case True
  then show ?thesis by (auto simp: LFUCache_unlinked_def split: option.splits)
next
  case False
  have "map_option (remove1 k) (fmlookup fl g) = fmlookup fl g"
  proof (cases "fmlookup fl g")
    case (Some l0)
    from LFUCache_linked_notin[OF assms Some False] show ?thesis
      using Some by (simp add: remove1_idem)
  qed simp
  with False show ?thesis by (simp add: LFUCache_unlinked_def)
qed

lemma LFUCache_linked_del:
  assumes "LFUCache_linked m fl" "fmlookup m k = Some n"
  shows "LFUCache_linked (fmdrop k m) (LFUCache_unlinked k (CacheNode.frequency n) fl)"
proof -
  have "l' \<noteq> [] \<and> distinct l' \<and>
        (\<forall>k' \<in> set l'. \<exists>n'. fmlookup (fmdrop k m) k' = Some n' \<and> CacheNode.frequency n' = g)"
    if a: "fmlookup (LFUCache_unlinked k (CacheNode.frequency n) fl) g = Some l'" for g l'
  proof (cases "g = CacheNode.frequency n")
    case True
    with a obtain l0 where l0: "fmlookup fl g = Some l0" "l' = remove1 k l0" "l' \<noteq> []"
      by (auto simp: LFUCache_unlinked_lookup[OF assms] split: option.splits if_splits)
    have d: "distinct l0" using assms(1) l0(1) unfolding LFUCache_linked_def by blast
    have "k \<notin> set l'" using d l0(2) by simp
    moreover have "\<forall>k' \<in> set l'. \<exists>n'. fmlookup m k' = Some n' \<and> CacheNode.frequency n' = g"
      using assms(1) l0(1,2) unfolding LFUCache_linked_def
      by (meson notin_set_remove1)
    ultimately show ?thesis using l0(2,3) d by auto
  next
    case False
    with a have l0: "fmlookup fl g = Some l'" by (simp add: LFUCache_unlinked_lookup[OF assms])
    have "k \<notin> set l'" using LFUCache_linked_notin[OF assms l0 False] .
    then show ?thesis using assms(1) l0 unfolding LFUCache_linked_def by fastforce
  qed
  moreover have "CacheNode.key n' = k' \<and>
     (\<exists>l. fmlookup (LFUCache_unlinked k (CacheNode.frequency n) fl) (CacheNode.frequency n') = Some l \<and> k' \<in> set l)"
    if a: "fmlookup (fmdrop k m) k' = Some n'" for k' n'
  proof -
  from a have k': "k' \<noteq> k" "fmlookup m k' = Some n'" by (auto split: if_splits)
  then obtain l0 where l0: "CacheNode.key n' = k'" "fmlookup fl (CacheNode.frequency n') = Some l0" "k' \<in> set l0"
    using assms(1) unfolding LFUCache_linked_def by blast
  have "k' \<in> set (remove1 k l0)" using l0(3) k'(1) by simp
  then have "\<exists>l. fmlookup (LFUCache_unlinked k (CacheNode.frequency n) fl) (CacheNode.frequency n') = Some l \<and> k' \<in> set l"
    using l0 by (auto simp: LFUCache_unlinked_lookup[OF assms])
  with l0(1) show ?thesis
    by simp
  qed
  ultimately show ?thesis unfolding LFUCache_linked_def by blast
qed

text \<open>The frequency lists once node k is linked at the head of the list of f.\<close>

lemma LFUCache_addNodeToFrequencyList_eq:
  "LFUCache_addNodeToFrequencyList n c =
     c\<lparr>LFUCache.frequencyToListMap :=
         LFUCache_linked_first (CacheNode.key n) (CacheNode.frequency n) (LFUCache.frequencyToListMap c)\<rparr>"
  by (cases "fmlookup (LFUCache.frequencyToListMap c) (CacheNode.frequency n)")
     (simp_all add: LFUCache_addNodeToFrequencyList_def LFUCache_linked_first_def Let_def)

lemma LFUCache_linked_bucket:
  assumes "LFUCache_linked m fl" "fmlookup fl f = Some l"
  shows "l \<noteq> []" "distinct l" "k \<in> set l \<Longrightarrow> \<exists>n. fmlookup m k = Some n \<and> CacheNode.frequency n = f"
  using assms unfolding LFUCache_linked_def by blast+

lemma LFUCache_linked_node:
  assumes "LFUCache_linked m fl" "fmlookup m k = Some n"
  shows "CacheNode.key n = k" "\<exists>l. fmlookup fl (CacheNode.frequency n) = Some l \<and> k \<in> set l"
  using assms unfolding LFUCache_linked_def by blast+

lemma LFUCache_linked_add:
  assumes "LFUCache_linked m fl" "fmlookup m k = None" "CacheNode.key n = k"
  shows "LFUCache_linked (fmupd k n m) (LFUCache_linked_first k (CacheNode.frequency n) fl)"
proof -
  let ?f = "CacheNode.frequency n"
  have "l' \<noteq> [] \<and> distinct l' \<and>
        (\<forall>k' \<in> set l'. \<exists>n'. fmlookup (fmupd k n m) k' = Some n' \<and> CacheNode.frequency n' = g)"
    if a: "fmlookup (LFUCache_linked_first k ?f fl) g = Some l'" for g l'
  proof (cases "g = ?f")
    case True
    show ?thesis
    proof (cases "fmlookup fl g")
      case None
      with a True show ?thesis by (auto simp: LFUCache_linked_first_def)
    next
      case (Some l0)
      have k: "k \<notin> set l0" using LFUCache_linked_fresh[OF assms(1,2) Some] .
      have l': "l' = k # l0" using a True Some by (auto simp: LFUCache_linked_first_def)
      have "\<exists>n'. fmlookup (fmupd k n m) k' = Some n' \<and> CacheNode.frequency n' = g" if "k' \<in> set l'" for k'
      proof (cases "k' = k")
        case True
        then show ?thesis using \<open>g = ?f\<close> by simp
      next
        case False
        then have "k' \<in> set l0" using that l' by simp
        from LFUCache_linked_bucket(3)[OF assms(1) Some this] False show ?thesis by simp
      qed
      then show ?thesis using l' k LFUCache_linked_bucket(2)[OF assms(1) Some] by simp
    qed
  next
    case False
    with a have l0: "fmlookup fl g = Some l'" by (simp add: LFUCache_linked_first_def)
    have k: "k \<notin> set l'" using LFUCache_linked_fresh[OF assms(1,2) l0] .
    have "\<exists>n'. fmlookup (fmupd k n m) k' = Some n' \<and> CacheNode.frequency n' = g" if "k' \<in> set l'" for k'
    proof -
      have "k' \<noteq> k" using that k by blast
      with LFUCache_linked_bucket(3)[OF assms(1) l0 that] show ?thesis by simp
    qed
    then show ?thesis using LFUCache_linked_bucket(1,2)[OF assms(1) l0] by simp
  qed
  moreover have "CacheNode.key n' = k' \<and>
     (\<exists>l. fmlookup (LFUCache_linked_first k ?f fl) (CacheNode.frequency n') = Some l \<and> k' \<in> set l)"
    if a: "fmlookup (fmupd k n m) k' = Some n'" for k' n'
  proof (cases "k' = k")
    case True
    with a assms(3) show ?thesis by (auto simp: LFUCache_linked_first_def)
  next
    case False
    with a have n': "fmlookup m k' = Some n'" by simp
    from LFUCache_linked_node[OF assms(1) n'] obtain l where
      l: "CacheNode.key n' = k'" "fmlookup fl (CacheNode.frequency n') = Some l" "k' \<in> set l"
      by blast
    then show ?thesis by (simp add: LFUCache_linked_first_def)
  qed
  ultimately show ?thesis unfolding LFUCache_linked_def by (intro conjI allI impI) blast+
qed

lemma LFUCache_linked_rewrite:
  assumes "LFUCache_linked m fl" "fmlookup m k = Some n"
    "CacheNode.key n' = CacheNode.key n" "CacheNode.frequency n' = CacheNode.frequency n"
  shows "LFUCache_linked (fmupd k n' m) fl"
proof -
  have "\<exists>x. fmlookup (fmupd k n' m) k' = Some x \<and> CacheNode.frequency x = g"
    if "fmlookup fl g = Some l" "k' \<in> set l" for g l k'
    using LFUCache_linked_bucket(3)[OF assms(1) that] assms(2,4) by (cases "k' = k") auto
  moreover have "CacheNode.key x = k' \<and> (\<exists>l. fmlookup fl (CacheNode.frequency x) = Some l \<and> k' \<in> set l)"
    if "fmlookup (fmupd k n' m) k' = Some x" for k' x
  proof (cases "k' = k")
    case True
    then have "x = n'" using that by simp
    then show ?thesis using LFUCache_linked_node[OF assms(1,2)] assms(3,4) True by simp
  next
    case False
    then have "fmlookup m k' = Some x" using that by simp
    from LFUCache_linked_node[OF assms(1) this] show ?thesis by simp
  qed
  moreover have "l \<noteq> [] \<and> distinct l" if "fmlookup fl g = Some l" for g l
    using LFUCache_linked_bucket(1,2)[OF assms(1) that] by simp
  ultimately show ?thesis unfolding LFUCache_linked_def by (intro conjI allI impI ballI) blast+
qed

text \<open>What \<^verbatim>\<open>updateFrequency\<close> does to a node of the cache.\<close>

lemma LFUCache_updateFrequency_eq:
  assumes "LFUCache_linked (LFUCache.keyToNodeMap c) (LFUCache.frequencyToListMap c)"
    "fmlookup (LFUCache.keyToNodeMap c) k = Some n"
  shows "LFUCache_updateFrequency n c = Inr (LFUCache_promoted n c)"
proof -
  let ?m = "LFUCache.keyToNodeMap c" and ?fl = "LFUCache.frequencyToListMap c"
  let ?f = "CacheNode.frequency n"
  from LFUCache_linked_node[OF assms] obtain l where
    l: "CacheNode.key n = k" "fmlookup ?fl ?f = Some l" "k \<in> set l" by blast
  have rm: "LFUCache_removeNode (CacheNode.key n) ?fl = Inr (fmmap (remove1 k) ?fl)"
    using LFUCache_removeNode_ok[OF l(2,3)] l(1) by simp
  show ?thesis
  proof (cases "remove1 k l = []")
    case True
    then have u: "LFUCache_unlinked k ?f ?fl = fmdrop ?f (fmmap (remove1 k) ?fl)"
      using l(2) by (simp add: LFUCache_unlinked_def)
    show ?thesis
      using rm l True u
      by (simp add: LFUCache_updateFrequency_def Let_def LFUCache_promoted_def LFUCache_addNodeToFrequencyList_eq)
  next
    case False
    then have u: "LFUCache_unlinked k ?f ?fl = fmmap (remove1 k) ?fl"
      using l(2) by (simp add: LFUCache_unlinked_def)
    show ?thesis
      using rm l False u
      by (simp add: LFUCache_updateFrequency_def Let_def LFUCache_promoted_def LFUCache_addNodeToFrequencyList_eq)
  qed
qed

lemma LFUCache_linked_promoted:
  assumes "LFUCache_linked (LFUCache.keyToNodeMap c) (LFUCache.frequencyToListMap c)"
    "fmlookup (LFUCache.keyToNodeMap c) k = Some n"
  shows "LFUCache_linked (LFUCache.keyToNodeMap (LFUCache_promoted n c)) (LFUCache.frequencyToListMap (LFUCache_promoted n c))"
proof -
  let ?n1 = "n\<lparr>CacheNode.frequency := CacheNode.frequency n + 1\<rparr>"
  have k: "CacheNode.key n = k" using LFUCache_linked_node(1)[OF assms] .
  have "LFUCache_linked (fmupd k ?n1 (fmdrop k (LFUCache.keyToNodeMap c)))
          (LFUCache_linked_first k (CacheNode.frequency ?n1)
             (LFUCache_unlinked k (CacheNode.frequency n) (LFUCache.frequencyToListMap c)))"
    using LFUCache_linked_del[OF assms] k by (intro LFUCache_linked_add) simp_all
  then show ?thesis using k by (simp add: LFUCache_promoted_def fmupd_fmdrop_same)
qed

lemma HashMap_size_fmupd_present:
  "fmlookup m k = Some x \<Longrightarrow> HashMap_size (fmupd k y m) = HashMap_size m"
  by (simp add: HashMap_size_def insert_absorb fmdom'I)

lemma HashMap_size_fmupd_absent:
  "fmlookup m k = None \<Longrightarrow> HashMap_size (fmupd k y m) = HashMap_size m + 1"
  by (simp add: HashMap_size_def fmdom'_notI)

lemma HashMap_size_fmdrop_present:
  "fmlookup m k = Some x \<Longrightarrow> HashMap_size (fmdrop k m) = HashMap_size m - 1"
proof -
  assume "fmlookup m k = Some x"
  then have k: "k \<in> fmdom' m" by (rule fmdom'I)
  then have "card (fmdom' m) > 0" by (auto simp: card_gt_0_iff)
  then show ?thesis using k by (simp add: HashMap_size_def)
qed

lemma LFUCache_inv_promoted:
  assumes "LFUCache_inv c" "fmlookup (LFUCache.keyToNodeMap c) k = Some n"
  shows "LFUCache_inv (LFUCache_promoted n c)"
proof -
  let ?m = "LFUCache.keyToNodeMap c" and ?fl = "LFUCache.frequencyToListMap c"
  let ?f = "CacheNode.frequency n"
  have lk: "LFUCache_linked ?m ?fl" using assms(1) by (simp add: LFUCache_inv_def)
  have k: "CacheNode.key n = k" using LFUCache_linked_node(1)[OF lk assms(2)] .
  have ne: "fmdom' ?m \<noteq> {}" using assms(2) by (auto dest: fmdom'I)
  then have mn: "fmlookup ?fl (LFUCache.minFrequency c) \<noteq> None"
    using assms(1) by (simp add: LFUCache_inv_def)
  have "fmlookup (LFUCache.frequencyToListMap (LFUCache_promoted n c)) (LFUCache.minFrequency (LFUCache_promoted n c)) \<noteq> None"
    using mn k by (auto simp: LFUCache_promoted_def LFUCache_linked_first_def LFUCache_unlinked_lookup[OF lk assms(2)])
  moreover have "HashMap_size (LFUCache.keyToNodeMap (LFUCache_promoted n c)) = HashMap_size ?m"
    using k assms(2) by (simp add: LFUCache_promoted_def HashMap_size_fmupd_present)
  moreover have "LFUCache.capacity (LFUCache_promoted n c) = LFUCache.capacity c"
    by (simp add: LFUCache_promoted_def)
  ultimately show ?thesis
    using LFUCache_linked_promoted[OF lk assms(2)] assms(1) by (simp add: LFUCache_inv_def)
qed

lemma LFUCache_get_hit:
  assumes "LFUCache_inv c" "fmlookup (LFUCache.keyToNodeMap c) k = Some n"
  shows "LFUCache_get k c = Inr (CacheNode.value n, LFUCache_promoted n c)"
  using assms LFUCache_updateFrequency_eq[of c k n]
  by (simp add: LFUCache_get_def LFUCache_inv_def)

lemma LFUCache_get_miss:
  "fmlookup (LFUCache.keyToNodeMap c) k = None \<Longrightarrow> LFUCache_get k c = Inr (- 1, c)"
  by (simp add: LFUCache_get_def)

lemma LFUCache_inv_nonzero:
  assumes "LFUCache_inv c" "fmlookup (LFUCache.keyToNodeMap c) k = Some n"
  shows "LFUCache.capacity c \<noteq> 0"
proof
  assume z: "LFUCache.capacity c = 0"
  have "k \<in> fmdom' (LFUCache.keyToNodeMap c)" using assms(2) by (rule fmdom'I)
  then have "card (fmdom' (LFUCache.keyToNodeMap c)) > 0" by (auto simp: card_gt_0_iff)
  then show False using assms(1) z by (simp add: LFUCache_inv_def HashMap_size_def)
qed

text \<open>What put does to a stored key.\<close>

lemma LFUCache_put_present:
  assumes "LFUCache_inv c" "fmlookup (LFUCache.keyToNodeMap c) k = Some n"
  shows "LFUCache_put k v c =
           Inr (LFUCache_promoted (n\<lparr>CacheNode.value := v\<rparr>)
                  (c\<lparr>LFUCache.keyToNodeMap := fmupd k (n\<lparr>CacheNode.value := v\<rparr>) (LFUCache.keyToNodeMap c)\<rparr>))"
    (is "_ = Inr (LFUCache_promoted ?n1 ?c1)")
    and "LFUCache_inv (LFUCache_promoted (n\<lparr>CacheNode.value := v\<rparr>)
                  (c\<lparr>LFUCache.keyToNodeMap := fmupd k (n\<lparr>CacheNode.value := v\<rparr>) (LFUCache.keyToNodeMap c)\<rparr>))"
proof -
  have lk: "LFUCache_linked (LFUCache.keyToNodeMap c) (LFUCache.frequencyToListMap c)"
    using assms(1) by (simp add: LFUCache_inv_def)
  have lk1: "LFUCache_linked (LFUCache.keyToNodeMap ?c1) (LFUCache.frequencyToListMap ?c1)"
    using LFUCache_linked_rewrite[OF lk assms(2), of ?n1] by simp
  have l1: "fmlookup (LFUCache.keyToNodeMap ?c1) k = Some ?n1" by simp
  have "fmdom' (LFUCache.keyToNodeMap c) \<noteq> {}" using assms(2) by (auto dest: fmdom'I)
  then have inv1: "LFUCache_inv ?c1"
    using assms lk1 by (simp add: LFUCache_inv_def HashMap_size_fmupd_present)
  show "LFUCache_put k v c = Inr (LFUCache_promoted ?n1 ?c1)"
    using LFUCache_inv_nonzero[OF assms] assms(2) LFUCache_updateFrequency_eq[OF lk1 l1]
    by (simp add: LFUCache_put_def Let_def)
  show "LFUCache_inv (LFUCache_promoted ?n1 ?c1)"
    using LFUCache_inv_promoted[OF inv1 l1] .
qed

text \<open>The eviction, in a cache that holds a key.\<close>

lemma LFUCache_evict_eq:
  assumes "LFUCache_inv c" "fmdom' (LFUCache.keyToNodeMap c) \<noteq> {}"
  shows "\<exists>l n. fmlookup (LFUCache.frequencyToListMap c) (LFUCache.minFrequency c) = Some l \<and> l \<noteq> [] \<and>
           fmlookup (LFUCache.keyToNodeMap c) (last l) = Some n \<and>
           CacheNode.frequency n = LFUCache.minFrequency c \<and>
           LFUCache_evict c =
             Inr (c\<lparr>LFUCache.keyToNodeMap := fmdrop (last l) (LFUCache.keyToNodeMap c),
                    LFUCache.frequencyToListMap :=
                      LFUCache_unlinked (last l) (LFUCache.minFrequency c) (LFUCache.frequencyToListMap c)\<rparr>)"
proof -
  let ?m = "LFUCache.keyToNodeMap c" and ?fl = "LFUCache.frequencyToListMap c"
  let ?f = "LFUCache.minFrequency c"
  have lk: "LFUCache_linked ?m ?fl" using assms(1) by (simp add: LFUCache_inv_def)
  obtain l where l: "fmlookup ?fl ?f = Some l" using assms by (auto simp: LFUCache_inv_def)
  have ne: "l \<noteq> []" using LFUCache_linked_bucket(1)[OF lk l] .
  then have x: "last l \<in> set l" by simp
  from LFUCache_linked_bucket(3)[OF lk l x] obtain n where
    n: "fmlookup ?m (last l) = Some n" "CacheNode.frequency n = ?f" by blast
  have rm: "LFUCache_removeNode (last l) ?fl = Inr (fmmap (remove1 (last l)) ?fl)"
    using LFUCache_removeNode_ok[OF l x] .
  obtain y ys where ys: "l = y # ys" using ne by (cases l) auto
  have "LFUCache_evict c =
             Inr (c\<lparr>LFUCache.keyToNodeMap := fmdrop (last l) ?m,
                    LFUCache.frequencyToListMap := LFUCache_unlinked (last l) ?f ?fl\<rparr>)"
    using l rm unfolding ys
    by (simp add: LFUCache_evict_def Let_def LFUCache_unlinked_def del: last.simps remove1.simps)
  with l ne n show ?thesis by blast
qed

lemma LFUCache_inv_inserted:
  assumes "LFUCache_linked (LFUCache.keyToNodeMap c) (LFUCache.frequencyToListMap c)"
    "fmlookup (LFUCache.keyToNodeMap c) k = None"
    "0 \<le> sint (LFUCache.capacity c) \<longrightarrow> HashMap_size (LFUCache.keyToNodeMap c) < sint (LFUCache.capacity c)"
  shows "LFUCache_inv (LFUCache_inserted k v c)"
proof -
  let ?new = "\<lparr>CacheNode.key = k, CacheNode.value = v, CacheNode.frequency = 1\<rparr>"
  have "LFUCache_linked (fmupd k ?new (LFUCache.keyToNodeMap c))
          (LFUCache_linked_first k (CacheNode.frequency ?new) (LFUCache.frequencyToListMap c))"
    using assms(1,2) by (intro LFUCache_linked_add) simp_all
  then show ?thesis
    using assms(2,3)
    by (auto simp: LFUCache_inv_def LFUCache_inserted_def HashMap_size_fmupd_absent LFUCache_linked_first_def)
qed

lemma LFUCache_put_absent_room:
  assumes "fmlookup (LFUCache.keyToNodeMap c) k = None" "LFUCache.capacity c \<noteq> 0"
    "HashMap_size (LFUCache.keyToNodeMap c) \<noteq> sint (LFUCache.capacity c)"
  shows "LFUCache_put k v c = Inr (LFUCache_inserted k v c)"
  using assms
  by (simp add: LFUCache_put_def Let_def LFUCache_inserted_def LFUCache_addNodeToFrequencyList_eq)

lemma LFUCache_put_absent_full:
  assumes "LFUCache_inv c" "fmlookup (LFUCache.keyToNodeMap c) k = None" "LFUCache.capacity c \<noteq> 0"
    "HashMap_size (LFUCache.keyToNodeMap c) = sint (LFUCache.capacity c)"
  shows "\<exists>l n. fmlookup (LFUCache.frequencyToListMap c) (LFUCache.minFrequency c) = Some l \<and> l \<noteq> [] \<and>
           fmlookup (LFUCache.keyToNodeMap c) (last l) = Some n \<and>
           CacheNode.frequency n = LFUCache.minFrequency c \<and>
           LFUCache_put k v c = Inr (LFUCache_inserted k v (LFUCache_evicted (last l) c)) \<and>
           LFUCache_inv (LFUCache_inserted k v (LFUCache_evicted (last l) c))"
proof -
  let ?m = "LFUCache.keyToNodeMap c" and ?fl = "LFUCache.frequencyToListMap c"
  have "sint (LFUCache.capacity c) \<noteq> 0" using assms(3) by (simp add: signed_eq_0_iff)
  then have pos: "0 < HashMap_size ?m" using assms(4) by (simp add: HashMap_size_def)
  then have ne: "fmdom' ?m \<noteq> {}" by (auto simp: HashMap_size_def)
  from LFUCache_evict_eq[OF assms(1) ne] obtain l n where
    l: "fmlookup ?fl (LFUCache.minFrequency c) = Some l" "l \<noteq> []"
       "fmlookup ?m (last l) = Some n" "CacheNode.frequency n = LFUCache.minFrequency c"
       "LFUCache_evict c = Inr (LFUCache_evicted (last l) c)"
    unfolding LFUCache_evicted_def by blast
  have lk: "LFUCache_linked ?m ?fl" using assms(1) by (simp add: LFUCache_inv_def)
  have p: "LFUCache_put k v c = Inr (LFUCache_inserted k v (LFUCache_evicted (last l) c))"
    using assms(2,3,4) l(5)
    by (simp add: LFUCache_put_def Let_def LFUCache_inserted_def LFUCache_addNodeToFrequencyList_eq)
  have lk1: "LFUCache_linked (LFUCache.keyToNodeMap (LFUCache_evicted (last l) c))
               (LFUCache.frequencyToListMap (LFUCache_evicted (last l) c))"
    using LFUCache_linked_del[OF lk l(3)] l(4) by (simp add: LFUCache_evicted_def)
  have "LFUCache_inv (LFUCache_inserted k v (LFUCache_evicted (last l) c))"
  proof (rule LFUCache_inv_inserted[OF lk1])
    show "fmlookup (LFUCache.keyToNodeMap (LFUCache_evicted (last l) c)) k = None"
      using assms(2) by (simp add: LFUCache_evicted_def)
    show "0 \<le> sint (LFUCache.capacity (LFUCache_evicted (last l) c)) \<longrightarrow>
          HashMap_size (LFUCache.keyToNodeMap (LFUCache_evicted (last l) c)) < sint (LFUCache.capacity (LFUCache_evicted (last l) c))"
      using assms(4) l(3) by (simp add: LFUCache_evicted_def HashMap_size_fmdrop_present)
  qed
  with l p show ?thesis by blast
qed

lemma LFUCache_put_absent:
  assumes "LFUCache_inv c" "fmlookup (LFUCache.keyToNodeMap c) k = None"
  shows "\<exists>c'. LFUCache_put k v c = Inr c' \<and> LFUCache_inv c' \<and> LFUCache.capacity c' = LFUCache.capacity c"
proof (cases "LFUCache.capacity c = 0")
  case True
  then show ?thesis using assms(1) by (simp add: LFUCache_put_def)
next
  case nz: False
  show ?thesis
  proof (cases "HashMap_size (LFUCache.keyToNodeMap c) = sint (LFUCache.capacity c)")
    case True
    from LFUCache_put_absent_full[OF assms nz True, of v] show ?thesis
      by (auto simp: LFUCache_inserted_def LFUCache_evicted_def)
  next
    case False
    have "LFUCache_inv (LFUCache_inserted k v c)"
      using assms False by (intro LFUCache_inv_inserted) (auto simp: LFUCache_inv_def)
    then show ?thesis
      using LFUCache_put_absent_room[OF assms(2) nz False] by (simp add: LFUCache_inserted_def)
  qed
qed

lemma LFUCache_inv_init: "LFUCache_init cap = Inr c \<Longrightarrow> LFUCache_inv c \<and> LFUCache.capacity c = cap"
  by (auto simp: LFUCache_init_def LFUCache_inv_def LFUCache_linked_def HashMap_size_def)

lemma LFUCache_inv_step:
  assumes "LFUCache_inv c"
  shows "\<exists>c'. LFUCache_step x c = Inr c' \<and> LFUCache_inv c' \<and> LFUCache.capacity c' = LFUCache.capacity c"
proof (cases x)
  case (LFU_put k v)
  show ?thesis
  proof (cases "fmlookup (LFUCache.keyToNodeMap c) k")
    case None
    then show ?thesis using LFUCache_put_absent[OF assms None] LFU_put by simp
  next
    case (Some n)
    then show ?thesis using LFUCache_put_present[OF assms Some] LFU_put by (simp add: LFUCache_promoted_def)
  qed
next
  case (LFU_get k)
  show ?thesis
  proof (cases "fmlookup (LFUCache.keyToNodeMap c) k")
    case None
    then show ?thesis using LFUCache_get_miss[OF None] LFU_get assms by simp
  next
    case (Some n)
    then show ?thesis
      using LFUCache_get_hit[OF assms Some] LFUCache_inv_promoted[OF assms Some] LFU_get
      by (simp add: LFUCache_promoted_def)
  qed
qed

lemma LFUCache_inv_run:
  assumes "LFUCache_inv c"
  shows "\<exists>c'. LFUCache_run xs (Inr c) = Inr c' \<and> LFUCache_inv c' \<and> LFUCache.capacity c' = LFUCache.capacity c"
  using assms
proof (induction xs arbitrary: c)
  case Nil
  then show ?case by simp
next
  case (Cons x xs)
  from LFUCache_inv_step[OF Cons.prems, of x] obtain c1 where
    c1: "LFUCache_step x c = Inr c1" "LFUCache_inv c1" "LFUCache.capacity c1 = LFUCache.capacity c"
    by blast
  from Cons.IH[OF c1(2)] c1 show ?case by simp
qed



section \<open>\<^verbatim>\<open>LFUCache\<close>: a frequency counter that wraps around\<close>

text \<open>A cache of capacity 2 that holds key 1, used once, and key 2, whose counter is f.\<close>

lemma LFUCache_two_keys_linked:
  "f \<noteq> 1 \<Longrightarrow> LFUCache_linked (LFUCache.keyToNodeMap (LFUCache_two_keys f)) (LFUCache.frequencyToListMap (LFUCache_two_keys f))"
  by (auto simp: LFUCache_two_keys_def LFUCache_linked_def split: if_splits)

lemma LFUCache_two_keys_get:
  assumes "f \<noteq> 1" "f \<noteq> 0"
  shows "LFUCache_get 2 (LFUCache_two_keys f) = Inr (2, LFUCache_two_keys (f + 1))"
proof -
  let ?n = "\<lparr>CacheNode.key = 2, CacheNode.value = 2, CacheNode.frequency = f\<rparr>"
  have l: "fmlookup (LFUCache.keyToNodeMap (LFUCache_two_keys f)) 2 = Some ?n"
    by (simp add: LFUCache_two_keys_def)
  have u: "LFUCache_unlinked 2 f (fmupd f [2] (fmupd 1 [1] fmempty)) = fmupd 1 [1] fmempty"
    using assms(1) by (simp add: LFUCache_unlinked_def fmmap_fmupd fmdrop_fmupd)
  have "f + 1 \<noteq> 1" using assms(2) by simp
  then have "LFUCache_promoted ?n (LFUCache_two_keys f) = LFUCache_two_keys (f + 1)"
    using assms(1) by (simp add: LFUCache_promoted_def LFUCache_two_keys_def u LFUCache_linked_first_def)
  then show ?thesis
    using LFUCache_updateFrequency_eq[OF LFUCache_two_keys_linked[OF assms(1)] l] l
    by (simp add: LFUCache_get_def)
qed

lemma unat_succ: "unat (f::32 word) + 1 < 2^32 \<Longrightarrow> unat (f + 1) = unat f + 1"
  using unat_add_lem[of f 1] by simp

lemma LFUCache_two_keys_gets:
  "2 \<le> unat f \<Longrightarrow> unat f + n < 2 ^ 32 \<Longrightarrow>
   LFUCache_run (replicate n (LFU_get 2)) (Inr (LFUCache_two_keys f)) = Inr (LFUCache_two_keys (f + of_nat n))"
proof (induction n arbitrary: f)
  case 0
  then show ?case by simp
next
  case (Suc n)
  have f: "f \<noteq> 1" "f \<noteq> 0" using Suc.prems(1) by auto
  have u: "unat (f + 1) = unat f + 1" using Suc.prems(2) by (intro unat_succ) simp
  have "LFUCache_run (replicate n (LFU_get 2)) (Inr (LFUCache_two_keys (f + 1))) =
          Inr (LFUCache_two_keys (f + 1 + of_nat n))"
    using Suc.prems u by (intro Suc.IH) simp_all
  then show ?case using LFUCache_two_keys_get[OF f] by (simp add: ac_simps)
qed

lemma LFUCache_two_keys_start:
  "LFUCache_run [LFU_put 1 1, LFU_put 2 2, LFU_get 2] (LFUCache_init 2) = Inr (LFUCache_two_keys 2)"
proof -
  let ?n1 = "\<lparr>CacheNode.key = 1, CacheNode.value = 1, CacheNode.frequency = 1\<rparr>"
  let ?n2 = "\<lparr>CacheNode.key = 2, CacheNode.value = 2, CacheNode.frequency = 1\<rparr>"
  let ?c0 = "\<lparr>LFUCache.keyToNodeMap = fmempty, LFUCache.frequencyToListMap = fmempty,
          LFUCache.capacity = 2, LFUCache.minFrequency = 0\<rparr>"
  let ?c1 = "\<lparr>LFUCache.keyToNodeMap = fmupd 1 ?n1 fmempty, LFUCache.frequencyToListMap = fmupd 1 [1] fmempty,
          LFUCache.capacity = 2, LFUCache.minFrequency = 1\<rparr>"
  let ?c2 = "\<lparr>LFUCache.keyToNodeMap = fmupd 2 ?n2 (fmupd 1 ?n1 fmempty),
          LFUCache.frequencyToListMap = fmupd 1 [2, 1] fmempty,
          LFUCache.capacity = 2, LFUCache.minFrequency = 1\<rparr>"
  have p1: "LFUCache_put 1 1 ?c0 = Inr ?c1"
    by (simp add: LFUCache_put_absent_room LFUCache_inserted_def LFUCache_linked_first_def HashMap_size_def)
  have p2: "LFUCache_put 2 2 ?c1 = Inr ?c2"
    by (simp add: LFUCache_put_absent_room LFUCache_inserted_def LFUCache_linked_first_def HashMap_size_def)
  have lk: "LFUCache_linked (LFUCache.keyToNodeMap ?c2) (LFUCache.frequencyToListMap ?c2)"
    by (auto simp: LFUCache_linked_def split: if_splits)
  have l: "fmlookup (LFUCache.keyToNodeMap ?c2) 2 = Some ?n2" by simp
  have "LFUCache_promoted ?n2 ?c2 = LFUCache_two_keys 2"
    by (simp add: LFUCache_promoted_def LFUCache_two_keys_def LFUCache_unlinked_def LFUCache_linked_first_def fmmap_fmupd)
  then have g: "LFUCache_get 2 ?c2 = Inr (2, LFUCache_two_keys 2)"
    using LFUCache_updateFrequency_eq[OF lk l] by (simp add: LFUCache_get_def)
  show ?thesis
    by (simp add: LFUCache_init_def p1 p2 g)
qed

lemma LFUCache_run_append:
  "LFUCache_run (xs @ ys) r = LFUCache_run ys (LFUCache_run xs r)"
proof (induction xs arbitrary: r)
  case Nil
  then show ?case by simp
next
  case (Cons x xs)
  then show ?case by (cases r; cases ys) simp_all
qed

lemma LFUCache_two_keys_overflow:
  "LFUCache_run ([LFU_put 1 1, LFU_put 2 2, LFU_get 2] @ replicate 2147483646 (LFU_get 2)) (LFUCache_init 2)
     = Inr (LFUCache_two_keys (- 2147483648))"
proof -
  have "LFUCache_run (replicate 2147483646 (LFU_get 2)) (Inr (LFUCache_two_keys 2)) =
          Inr (LFUCache_two_keys (2 + of_nat 2147483646))"
    by (rule LFUCache_two_keys_gets) simp_all
  moreover have "(2 :: jint) + of_nat 2147483646 = - 2147483648" by simp
  ultimately show ?thesis by (simp only: LFUCache_run_append LFUCache_two_keys_start)
qed

lemma LFUCache_two_keys_frequencies:
  "LFUCache_frequencies (LFUCache_two_keys f) = {f, 1}"
  by (auto simp: LFUCache_frequencies_def LFUCache_two_keys_def)

lemma LFUCache_two_keys_not_ok:
  "\<not> LFUCache_minFrequency_ok (LFUCache_two_keys (- 2147483648))"
  by (simp add: LFUCache_minFrequency_ok_def LFUCache_two_keys_frequencies)
     (simp add: LFUCache_two_keys_def)

text \<open>
  The counter of key 2 all the way round: \<open>2^32\<close> calls of \<^verbatim>\<open>get(2)\<close> bring it back to 1, and
  a \<^verbatim>\<open>get(1)\<close> then takes key 1 to frequency 2.
\<close>

lemma replicate_gets_round:
  "replicate 4294967296 (LFU_get 2) =
     LFU_get 2 # replicate 4294967293 (LFU_get 2) @ [LFU_get 2, LFU_get 2]"
proof -
  have "(4294967296 :: nat) = Suc (4294967293 + Suc (Suc 0))" by simp
  then show ?thesis by (simp only: replicate_Suc replicate_add replicate_0)
qed

lemma LFUCache_two_keys_minus_one:
  "LFUCache_run ([LFU_put 1 1, LFU_put 2 2, LFU_get 2] @ replicate 4294967293 (LFU_get 2)) (LFUCache_init 2)
     = Inr (LFUCache_two_keys (- 1))"
proof -
  have "LFUCache_run (replicate 4294967293 (LFU_get 2)) (Inr (LFUCache_two_keys 2)) =
          Inr (LFUCache_two_keys (2 + of_nat 4294967293))"
    by (rule LFUCache_two_keys_gets) simp_all
  moreover have "(2 :: jint) + of_nat 4294967293 = - 1" by simp
  ultimately show ?thesis by (simp only: LFUCache_run_append LFUCache_two_keys_start)
qed

lemma LFUCache_two_keys_get_zero:
  "LFUCache_get 2 (LFUCache_two_keys (- 1)) = Inr (2, LFUCache_two_keys 0)"
  using LFUCache_two_keys_get[of "- 1"] by simp

lemma LFUCache_two_keys_get_round:
  "LFUCache_get 2 (LFUCache_two_keys 0) = Inr (2, LFUCache_two_keys_round)"
proof -
  let ?n = "\<lparr>CacheNode.key = 2, CacheNode.value = 2, CacheNode.frequency = 0\<rparr>"
  have l: "fmlookup (LFUCache.keyToNodeMap (LFUCache_two_keys 0)) 2 = Some ?n"
    by (simp add: LFUCache_two_keys_def)
  have lk: "LFUCache_linked (LFUCache.keyToNodeMap (LFUCache_two_keys 0))
              (LFUCache.frequencyToListMap (LFUCache_two_keys 0))"
    by (rule LFUCache_two_keys_linked) simp
  have "LFUCache_promoted ?n (LFUCache_two_keys 0) = LFUCache_two_keys_round"
    by (simp add: LFUCache_promoted_def LFUCache_two_keys_def LFUCache_two_keys_round_def
        LFUCache_unlinked_def LFUCache_linked_first_def fmmap_fmupd fmdrop_fmupd)
  then show ?thesis
    using LFUCache_updateFrequency_eq[OF lk l] l by (simp add: LFUCache_get_def)
qed

lemma LFUCache_two_keys_round_linked:
  "LFUCache_linked (LFUCache.keyToNodeMap LFUCache_two_keys_round)
     (LFUCache.frequencyToListMap LFUCache_two_keys_round)"
  by (auto simp: LFUCache_two_keys_round_def LFUCache_linked_def split: if_splits)

lemma fmupd_shadow: "fmupd k a (fmupd j b (fmupd k c m)) = fmupd k a (fmupd j b m)"
  by (rule fmap_ext) simp

lemma LFUCache_two_keys_get_passed:
  "LFUCache_get 1 LFUCache_two_keys_round = Inr (1, LFUCache_two_keys_passed)"
proof -
  let ?n = "\<lparr>CacheNode.key = 1, CacheNode.value = 1, CacheNode.frequency = 1\<rparr>"
  have l: "fmlookup (LFUCache.keyToNodeMap LFUCache_two_keys_round) 1 = Some ?n"
    by (simp add: LFUCache_two_keys_round_def)
  have "LFUCache_promoted ?n LFUCache_two_keys_round = LFUCache_two_keys_passed"
    by (simp add: LFUCache_promoted_def LFUCache_two_keys_round_def LFUCache_two_keys_passed_def
        LFUCache_unlinked_def LFUCache_linked_first_def fmmap_fmupd fmdrop_fmupd fmupd_shadow)
  then show ?thesis
    using LFUCache_updateFrequency_eq[OF LFUCache_two_keys_round_linked l] l
    by (simp add: LFUCache_get_def)
qed

lemma LFUCache_two_keys_passed_reached:
  "LFUCache_run ([LFU_put 1 1, LFU_put 2 2] @ replicate 4294967296 (LFU_get 2) @ [LFU_get 1])
     (LFUCache_init 2) = Inr LFUCache_two_keys_passed"
proof -
  have "[LFU_put 1 1, LFU_put 2 2] @ replicate 4294967296 (LFU_get 2) @ [LFU_get 1] =
        ([LFU_put 1 1, LFU_put 2 2, LFU_get 2] @ replicate 4294967293 (LFU_get 2)) @
          [LFU_get 2, LFU_get 2, LFU_get 1]"
    by (simp only: replicate_gets_round append.simps append_assoc)
  then have "LFUCache_run ([LFU_put 1 1, LFU_put 2 2] @ replicate 4294967296 (LFU_get 2) @ [LFU_get 1])
          (LFUCache_init 2) =
        LFUCache_run [LFU_get 2, LFU_get 2, LFU_get 1] (Inr (LFUCache_two_keys (- 1)))"
    using LFUCache_run_append[of "[LFU_put 1 1, LFU_put 2 2, LFU_get 2] @ replicate 4294967293 (LFU_get 2)"
        "[LFU_get 2, LFU_get 2, LFU_get 1]" "LFUCache_init 2"]
    by (simp only: LFUCache_two_keys_minus_one)
  then show ?thesis
    by (simp add: LFUCache_two_keys_get_zero LFUCache_two_keys_get_round LFUCache_two_keys_get_passed)
qed

text \<open>How often a sequence uses a key.\<close>

lemma LFUCache_uses_append:
  "LFUCache_uses k (xs @ ys) = LFUCache_uses k xs + LFUCache_uses k ys"
  by (simp add: LFUCache_uses_def)

lemma LFUCache_uses_gets:
  "LFUCache_uses k (replicate n (LFU_get j)) = (if j = k then n else 0)"
  by (simp add: LFUCache_uses_def)

text \<open>The last state before the counter of key 2 wraps around.\<close>

lemma LFUCache_two_keys_max:
  "LFUCache_run ([LFU_put 1 1, LFU_put 2 2] @ replicate 2147483646 (LFU_get 2)) (LFUCache_init 2)
     = Inr (LFUCache_two_keys 2147483647)"
proof -
  have "LFUCache_run (replicate 2147483645 (LFU_get 2)) (Inr (LFUCache_two_keys 2)) =
          Inr (LFUCache_two_keys (2 + of_nat 2147483645))"
    by (rule LFUCache_two_keys_gets) simp_all
  moreover have "(2 :: jint) + of_nat 2147483645 = 2147483647" by simp
  ultimately have "LFUCache_run ([LFU_put 1 1, LFU_put 2 2, LFU_get 2] @ replicate 2147483645 (LFU_get 2))
      (LFUCache_init 2) = Inr (LFUCache_two_keys 2147483647)"
    by (simp only: LFUCache_run_append LFUCache_two_keys_start)
  moreover have "replicate 2147483646 (LFU_get 2) = LFU_get 2 # replicate 2147483645 (LFU_get 2)"
  proof -
    have "(2147483646 :: nat) = Suc 2147483645" by simp
    then show ?thesis by (simp only: replicate_Suc)
  qed
  ultimately show ?thesis by (simp only: append.simps)
qed



section \<open>\<^verbatim>\<open>LFUCache\<close>: frequency counters that do not wrap around\<close>

lemma sint_succ: "sint (f::jint) < 2147483647 \<Longrightarrow> sint (f + 1) = sint f + 1"
proof -
  assume a: "sint f < 2147483647"
  have "- 2147483648 \<le> sint f" using sint_ge[of f] by simp
  then show ?thesis using a
    by (simp add: sint_word_add signed_take_bit_int_eq_self)
qed

lemma LFUCache_counts_within_mono:
  "LFUCache_counts_within b c \<Longrightarrow> b \<le> b' \<Longrightarrow> LFUCache_counts_within b' c"
  unfolding LFUCache_counts_within_def fmpred_iff by fastforce

lemma LFUCache_counts_within_promoted:
  assumes "LFUCache_inv c" "LFUCache_counts_within b c"
    "fmlookup (LFUCache.keyToNodeMap c) k = Some n" "b < 2147483647"
  shows "LFUCache_counts_within (b + 1) (LFUCache_promoted n c)"
proof -
  let ?m = "LFUCache.keyToNodeMap c" and ?fl = "LFUCache.frequencyToListMap c"
  let ?f = "CacheNode.frequency n" and ?mn = "LFUCache.minFrequency c"
  have lk: "LFUCache_linked ?m ?fl" using assms(1) by (simp add: LFUCache_inv_def)
  have w: "1 \<le> sint g \<and> sint g \<le> b \<and> sint ?mn \<le> sint g" if "fmlookup ?fl g = Some l" for g l
    using assms(2) that unfolding LFUCache_counts_within_def fmpred_iff by blast
  from LFUCache_linked_node[OF lk assms(3)] obtain l where
    l: "CacheNode.key n = k" "fmlookup ?fl ?f = Some l" "k \<in> set l" by blast
  have f: "1 \<le> sint ?f" "sint ?f \<le> b" "sint ?mn \<le> sint ?f" using w[OF l(2)] by simp_all
  have s: "sint (?f + 1) = sint ?f + 1" using f(2) assms(4) by (intro sint_succ) simp
  let ?mn' = "LFUCache.minFrequency (LFUCache_promoted n c)"
  have "1 \<le> sint g \<and> sint g \<le> b + 1 \<and> sint ?mn' \<le> sint g"
    if g: "fmlookup (LFUCache.frequencyToListMap (LFUCache_promoted n c)) g = Some l'" for g l'
  proof (cases "g = ?f + 1")
    case True
    have "sint ?mn' \<le> sint ?f + 1"
      using f(3) s by (simp add: LFUCache_promoted_def)
    then show ?thesis using True s f by simp
  next
    case False
    then have u: "fmlookup (LFUCache_unlinked k ?f ?fl) g = Some l'"
      using g l(1) by (simp add: LFUCache_promoted_def LFUCache_linked_first_def)
    then obtain l0 where l0: "fmlookup ?fl g = Some l0"
      by (auto simp: LFUCache_unlinked_lookup[OF lk assms(3)] split: if_splits option.splits)
    have "sint ?mn' \<le> sint g"
    proof (cases "fmlookup (LFUCache_unlinked k ?f ?fl) ?f = None \<and> ?mn = ?f")
      case True
      then have "g \<noteq> ?f" using u by auto
      then have "sint g \<noteq> sint ?f" by (auto dest: signed_word_eqI)
      moreover have "sint ?f \<le> sint g" using w[OF l0] True by simp
      ultimately show ?thesis using True s l(1) by (simp add: LFUCache_promoted_def)
    next
      case False
      then show ?thesis using w[OF l0] l(1) by (auto simp: LFUCache_promoted_def)
    qed
    then show ?thesis using w[OF l0] by simp
  qed
  then show ?thesis unfolding LFUCache_counts_within_def fmpred_iff by blast
qed

lemma LFUCache_counts_within_inserted:
  assumes "fmpred (\<lambda>f l. 1 \<le> sint f \<and> sint f \<le> b) (LFUCache.frequencyToListMap c)" "0 \<le> b"
  shows "LFUCache_counts_within (b + 1) (LFUCache_inserted k v c)"
  using assms unfolding LFUCache_counts_within_def fmpred_iff
  by (auto simp: LFUCache_inserted_def LFUCache_linked_first_def split: if_splits)

lemma LFUCache_counts_within_evicted:
  assumes "LFUCache_inv c" "LFUCache_counts_within b c"
    "fmlookup (LFUCache.keyToNodeMap c) x = Some n" "CacheNode.frequency n = LFUCache.minFrequency c"
  shows "fmpred (\<lambda>f l. 1 \<le> sint f \<and> sint f \<le> b) (LFUCache.frequencyToListMap (LFUCache_evicted x c))"
proof -
  have lk: "LFUCache_linked (LFUCache.keyToNodeMap c) (LFUCache.frequencyToListMap c)"
    using assms(1) by (simp add: LFUCache_inv_def)
  have "\<exists>l0. fmlookup (LFUCache.frequencyToListMap c) g = Some l0"
    if "fmlookup (LFUCache.frequencyToListMap (LFUCache_evicted x c)) g = Some l" for g l
    using that LFUCache_unlinked_lookup[OF lk assms(3), of g] assms(4)
    by (cases "fmlookup (LFUCache.frequencyToListMap c) g") (auto simp: LFUCache_evicted_def split: if_splits)
  then show ?thesis
    using assms(2) unfolding LFUCache_counts_within_def fmpred_iff by blast
qed

lemma LFUCache_counts_within_step:
  assumes "LFUCache_inv c" "LFUCache_counts_within b c" "0 \<le> b" "b < 2147483647"
    "LFUCache_step x c = Inr c'"
  shows "LFUCache_counts_within (b + 1) c'"
proof (cases x)
  case (LFU_put k v)
  show ?thesis
  proof (cases "fmlookup (LFUCache.keyToNodeMap c) k")
    case (Some n)
    let ?n1 = "n\<lparr>CacheNode.value := v\<rparr>"
    let ?c1 = "c\<lparr>LFUCache.keyToNodeMap := fmupd k ?n1 (LFUCache.keyToNodeMap c)\<rparr>"
    have c': "c' = LFUCache_promoted ?n1 ?c1"
      using LFUCache_put_present(1)[OF assms(1) Some, of v] assms(5) LFU_put by simp
    have lk: "LFUCache_linked (LFUCache.keyToNodeMap c) (LFUCache.frequencyToListMap c)"
      using assms(1) by (simp add: LFUCache_inv_def)
    have "fmdom' (LFUCache.keyToNodeMap c) \<noteq> {}" using Some by (auto dest: fmdom'I)
    then have inv1: "LFUCache_inv ?c1"
      using assms(1) LFUCache_linked_rewrite[OF lk Some, of ?n1] Some
      by (simp add: LFUCache_inv_def HashMap_size_fmupd_present)
    have w1: "LFUCache_counts_within b ?c1"
      using assms(2) by (simp add: LFUCache_counts_within_def)
    have l1: "fmlookup (LFUCache.keyToNodeMap ?c1) k = Some ?n1" by simp
    show ?thesis
      unfolding c' by (rule LFUCache_counts_within_promoted[OF inv1 w1 l1 assms(4)])
  next
    case None
    have w0: "fmpred (\<lambda>f l. 1 \<le> sint f \<and> sint f \<le> b) (LFUCache.frequencyToListMap c)"
      using assms(2) unfolding LFUCache_counts_within_def fmpred_iff by blast
    show ?thesis
    proof (cases "LFUCache.capacity c = 0")
      case True
      then have "c' = c" using assms(5) LFU_put by (simp add: LFUCache_put_def)
      then show ?thesis using LFUCache_counts_within_mono[OF assms(2)] by simp
    next
      case nz: False
      show ?thesis
      proof (cases "HashMap_size (LFUCache.keyToNodeMap c) = sint (LFUCache.capacity c)")
        case True
        from LFUCache_put_absent_full[OF assms(1) None nz True, of v] obtain l n where
          l: "fmlookup (LFUCache.keyToNodeMap c) (last l) = Some n"
             "CacheNode.frequency n = LFUCache.minFrequency c"
             "LFUCache_put k v c = Inr (LFUCache_inserted k v (LFUCache_evicted (last l) c))"
          by blast
        then have c': "c' = LFUCache_inserted k v (LFUCache_evicted (last l) c)" using assms(5) LFU_put by simp
        show ?thesis unfolding c'
          using LFUCache_counts_within_evicted[OF assms(1,2) l(1,2)] assms(3)
          by (rule LFUCache_counts_within_inserted)
      next
        case False
        then have "c' = LFUCache_inserted k v c"
          using LFUCache_put_absent_room[OF None nz False, of v] assms(5) LFU_put by simp
        then show ?thesis using LFUCache_counts_within_inserted[OF w0 assms(3)] by simp
      qed
    qed
  qed
next
  case (LFU_get k)
  show ?thesis
  proof (cases "fmlookup (LFUCache.keyToNodeMap c) k")
    case None
    then have "c' = c" using LFUCache_get_miss[OF None] assms(5) LFU_get by simp
    then show ?thesis using LFUCache_counts_within_mono[OF assms(2)] by simp
  next
    case (Some n)
    then have "c' = LFUCache_promoted n c" using LFUCache_get_hit[OF assms(1) Some] assms(5) LFU_get by simp
    then show ?thesis using LFUCache_counts_within_promoted[OF assms(1,2) Some assms(4)] by simp
  qed
qed

lemma LFUCache_counts_within_run:
  assumes "LFUCache_inv c" "LFUCache_counts_within b c" "0 \<le> b" "b + int (length xs) \<le> 2147483647"
  shows "\<exists>c'. LFUCache_run xs (Inr c) = Inr c' \<and> LFUCache_inv c' \<and>
           LFUCache_counts_within (b + int (length xs)) c'"
  using assms
proof (induction xs arbitrary: c b)
  case Nil
  then show ?case by simp
next
  case (Cons x xs)
  from LFUCache_inv_step[OF Cons.prems(1), of x] obtain c1 where
    c1: "LFUCache_step x c = Inr c1" "LFUCache_inv c1" by blast
  have w1: "LFUCache_counts_within (b + 1) c1"
    using Cons.prems by (intro LFUCache_counts_within_step[OF _ _ _ _ c1(1)]) simp_all
  from Cons.IH[OF c1(2) w1] Cons.prems(3,4) c1(1) show ?case by (simp add: add.assoc)
qed

lemma LFUCache_minFrequency_ok_within:
  assumes "LFUCache_inv c" "LFUCache_counts_within b c" "fmdom' (LFUCache.keyToNodeMap c) \<noteq> {}"
  shows "LFUCache_minFrequency_ok c"
proof -
  let ?fl = "LFUCache.frequencyToListMap c"
  have lk: "LFUCache_linked (LFUCache.keyToNodeMap c) ?fl"
    using assms(1) by (simp add: LFUCache_inv_def)
  obtain l where l: "fmlookup ?fl (LFUCache.minFrequency c) = Some l"
    using assms(1,3) by (auto simp: LFUCache_inv_def)
  have ne: "l \<noteq> []" using LFUCache_linked_bucket(1)[OF lk l] .
  have mn: "LFUCache.minFrequency c \<in> LFUCache_frequencies c"
    using l ne by (auto simp: LFUCache_frequencies_def intro: fmdom'I)
  have le: "sint (LFUCache.minFrequency c) \<le> sint f" if "f \<in> LFUCache_frequencies c" for f
  proof -
    from that obtain l' where "fmlookup ?fl f = Some l'"
      by (auto simp: LFUCache_frequencies_def fmlookup_dom'_iff)
    then show ?thesis
      using assms(2) unfolding LFUCache_counts_within_def fmpred_iff by blast
  qed
  have fin: "finite (sint ` LFUCache_frequencies c)"
    by (simp add: LFUCache_frequencies_def)
  have "Min (sint ` LFUCache_frequencies c) = sint (LFUCache.minFrequency c)"
    using fin mn le by (intro Min_eqI) auto
  then show ?thesis using mn by (auto simp: LFUCache_minFrequency_ok_def)
qed



section \<open>Reachable states\<close>

lemma LRUCache_run_inv:
  assumes "LRUCache_run xs (LRUCache_init cap) = Inr c"
  shows "LRUCache_inv c" "LRUCache.capacity c = cap"
proof -
  obtain c0 where c0: "LRUCache_init cap = Inr (c0 :: 'a LRUCache)" by (simp add: LRUCache_init_def)
  from LRUCache_inv_init[OF c0] LRUCache_inv_run[of c0 xs] assms c0
  show "LRUCache_inv c" "LRUCache.capacity c = cap" by auto
qed


lemma LFUCache_run_inv:
  assumes "LFUCache_run xs (LFUCache_init cap) = Inr c"
  shows "LFUCache_inv c" "LFUCache.capacity c = cap"
proof -
  obtain c0 where c0: "LFUCache_init cap = Inr c0" by (simp add: LFUCache_init_def)
  from LFUCache_inv_init[OF c0] LFUCache_inv_run[of c0 xs] assms c0
  show "LFUCache_inv c" "LFUCache.capacity c = cap" by auto
qed



section \<open>The capacity bound\<close>





section \<open>LRU eviction order\<close>

text \<open>
  C3. In an \<^verbatim>\<open>LRUCache<T>\<close> of capacity 2, after \<^verbatim>\<open>put(A,1); put(B,2); get(A)\<close> both keys
  are stored and A is the most recently used; \<^verbatim>\<open>put(C,3)\<close> then evicts B and not A: the
  keys left are A and C, with their values, and C is the most recently used.
\<close>

theorem LRUCache_eviction_order:
  assumes "a \<noteq> b" "a \<noteq> c" "b \<noteq> c"
  shows "\<exists>r3 r.
     LRUCache_run [LRU_put a va, LRU_put b vb, LRU_get a] (LRUCache_init 2) = Inr r3 \<and>
     fmdom' (LRUCache.cache r3) = {a, b} \<and>
     map NodeEntry.key (LRUCache.head_to_tail r3) = [a, b] \<and>
     LRUCache_run [LRU_put a va, LRU_put b vb, LRU_get a, LRU_put c vc] (LRUCache_init 2) = Inr r \<and>
     fmdom' (LRUCache.cache r) = {a, c} \<and>
     fmlookup (LRUCache.cache r) b = None \<and>
     map_option NodeEntry.value (fmlookup (LRUCache.cache r) a) = Some va \<and>
     map_option NodeEntry.value (fmlookup (LRUCache.cache r) c) = Some vc \<and>
     map NodeEntry.key (LRUCache.head_to_tail r) = [c, a]"
  using assms
  by (auto simp: LRUCache_init_def LRUCache_put_def LRUCache_get_def LRUCache_addNode_def
      LRUCache_remove_def HashMap_size_def Let_def)

theorem LRUCache_eviction_order_witness:
  "Some ''A'' \<noteq> Some ''B'' \<and> Some ''A'' \<noteq> Some ''C'' \<and> Some ''B'' \<noteq> Some ''C'' \<and>
   (\<exists>r. LRUCache_run [LRU_put (Some ''A'') (Some ''1''), LRU_put (Some ''B'') (Some ''2''),
                       LRU_get (Some ''A''), LRU_put (Some ''C'') (Some ''3'')] (LRUCache_init 2) = Inr r \<and>
      fmdom' (LRUCache.cache r) = {Some ''A'', Some ''C''} \<and>
      fmlookup (LRUCache.cache r) (Some ''B'') = None)"
  using LRUCache_eviction_order [of "Some ''A''" "Some ''B''" "Some ''C''" "Some ''1''" "Some ''2''" "Some ''3''"]
  by auto

section \<open>Construction\<close>

text \<open>
  C6, as the code has it. Neither constructor looks at its argument: constructing a
  cache succeeds for every capacity, negative, zero or positive, and gives an empty cache
  of that capacity. Nothing in the three classes raises a \<^verbatim>\<open>ConfigurationError\<close>.
\<close>

theorem constructors_accept_every_capacity:
  "LRUCache_init cap =
     Inr \<lparr>LRUCache.cache = fmempty, LRUCache.capacity = cap, LRUCache.head_to_tail = []\<rparr> \<and>
   LFUCache_init cap =
     Inr \<lparr>LFUCache.keyToNodeMap = fmempty, LFUCache.frequencyToListMap = fmempty,
          LFUCache.capacity = cap, LFUCache.minFrequency = 0\<rparr> \<and>
   LRUCache_lld_init cap =
     Inr \<lparr>LRUCache_lld.capacity = cap, LRUCache_lld.cache = fmempty, LRUCache_lld.dll = []\<rparr>"
  by (simp add: LRUCache_init_def LFUCache_init_def LRUCache_lld_init_def)

text \<open>
  C6, as it is stated, fails at capacity \<open>-1\<close>: both constructors return a cache.
\<close>

theorem negative_capacity_is_accepted:
  "(LRUCache_init (- 1) :: error + string LRUCache) =
     Inr \<lparr>LRUCache.cache = fmempty, LRUCache.capacity = - 1, LRUCache.head_to_tail = []\<rparr> \<and>
   LFUCache_init (- 1) =
     Inr \<lparr>LFUCache.keyToNodeMap = fmempty, LFUCache.frequencyToListMap = fmempty,
          LFUCache.capacity = - 1, LFUCache.minFrequency = 0\<rparr>"
  by (simp add: LRUCache_init_def LFUCache_init_def)

section \<open>Capacity 0\<close>

text \<open>
  In \<^verbatim>\<open>LRUCache<T>\<close> and in \<^verbatim>\<open>LFUCache\<close> of capacity 0 every \<^verbatim>\<open>put\<close> leaves the cache as it
  was, empty, and every \<^verbatim>\<open>get\<close> misses.
\<close>

lemma LRUCache_capacity_zero:
  "LRUCache_init 0 = Inr c \<Longrightarrow> LRUCache_put k v c = Inr c \<and> LRUCache_get k c = Inr (None, c)"
  by (auto simp: LRUCache_init_def LRUCache_put_def LRUCache_get_def LRUCache_addNode_def
      LRUCache_remove_def HashMap_size_def Let_def fmdrop_fmupd_same)

lemma LFUCache_capacity_zero:
  "LFUCache_init 0 = Inr c \<Longrightarrow> LFUCache_put k v c = Inr c \<and> LFUCache_get k c = Inr (- 1, c)"
  by (auto simp: LFUCache_init_def LFUCache_put_def LFUCache_get_def)

lemma LRUCache_capacity_zero_run:
  "LRUCache_run xs (LRUCache_init 0) = LRUCache_init 0"
proof -
  obtain c where c: "LRUCache_init 0 = Inr (c :: 'a LRUCache)" by (simp add: LRUCache_init_def)
  have "LRUCache_run xs (Inr c) = Inr c"
  proof (induction xs)
    case (Cons x xs)
    then show ?case using LRUCache_capacity_zero[OF c] by (cases x) simp_all
  qed simp
  then show ?thesis using c by simp
qed

lemma LFUCache_capacity_zero_run:
  "LFUCache_run xs (LFUCache_init 0) = LFUCache_init 0"
proof -
  obtain c where c: "LFUCache_init 0 = Inr c" by (simp add: LFUCache_init_def)
  have "LFUCache_run xs (Inr c) = Inr c"
  proof (induction xs)
    case (Cons x xs)
    then show ?case using LFUCache_capacity_zero[OF c] by (cases x) simp_all
  qed simp
  then show ?thesis using c by simp
qed

text \<open>
  C5 at \<^verbatim>\<open>new LRUCache<K, V>(0).put(k, v)\<close>, the class of \<^verbatim>\<open>lld/Design_LRU_Cache.md\<close>: the
  size 0 is not below the capacity 0, \<^verbatim>\<open>removeLast\<close> returns \<^verbatim>\<open>null\<close> for the empty chain,
  and \<^verbatim>\<open>lru.key\<close> throws. The call is not a no-op: it raises a \<^verbatim>\<open>NullPointerException\<close>.
\<close>

theorem LRUCache_lld_put_capacity_zero_throws:
  "LRUCache_lld_init 0 =
     Inr \<lparr>LRUCache_lld.capacity = 0, LRUCache_lld.cache = fmempty, LRUCache_lld.dll = []\<rparr> \<and>
   LRUCache_lld_put k v
     \<lparr>LRUCache_lld.capacity = 0, LRUCache_lld.cache = fmempty, LRUCache_lld.dll = []\<rparr> =
     Inl NullPointerException"
  by (simp add: LRUCache_lld_init_def LRUCache_lld_put_def HashMap_size_def
      DoublyLinkedList_removeLast_def)

section \<open>Misses\<close>

text \<open>
  C8, as the code has it. \<^verbatim>\<open>get\<close> of a key that is not stored never throws and leaves the
  cache exactly as it was, in every state of the cache. In the two LRU classes it returns
  \<^verbatim>\<open>null\<close>; in \<^verbatim>\<open>LFUCache\<close> it returns the \<^verbatim>\<open>int\<close> \<open>-1\<close>, an ordinary value of the value
  type and not an empty one.
\<close>

theorem get_absent_key:
  "(fmlookup (LRUCache.cache c) k = None \<longrightarrow> LRUCache_get k c = Inr (None, c)) \<and>
   (fmlookup (LRUCache_lld.cache d) k' = None \<longrightarrow> LRUCache_lld_get k' d = Inr (None, d)) \<and>
   (fmlookup (LFUCache.keyToNodeMap e) j = None \<longrightarrow> LFUCache_get j e = Inr (- 1, e))"
  by (simp add: LRUCache_get_def LRUCache_lld_get_def LFUCache_get_def)

theorem get_absent_key_witness:
  "fmlookup (LRUCache.cache
      \<lparr>LRUCache.cache = fmupd (Some ''A'') \<lparr>NodeEntry.key = Some ''A'', NodeEntry.value = Some ''1''\<rparr> fmempty,
       LRUCache.capacity = 2,
       LRUCache.head_to_tail = [\<lparr>NodeEntry.key = Some ''A'', NodeEntry.value = Some ''1''\<rparr>]\<rparr>)
     (Some ''B'') = None \<and>
   LRUCache_get (Some ''B'')
      \<lparr>LRUCache.cache = fmupd (Some ''A'') \<lparr>NodeEntry.key = Some ''A'', NodeEntry.value = Some ''1''\<rparr> fmempty,
       LRUCache.capacity = 2,
       LRUCache.head_to_tail = [\<lparr>NodeEntry.key = Some ''A'', NodeEntry.value = Some ''1''\<rparr>]\<rparr> =
     Inr (None,
      \<lparr>LRUCache.cache = fmupd (Some ''A'') \<lparr>NodeEntry.key = Some ''A'', NodeEntry.value = Some ''1''\<rparr> fmempty,
       LRUCache.capacity = 2,
       LRUCache.head_to_tail = [\<lparr>NodeEntry.key = Some ''A'', NodeEntry.value = Some ''1''\<rparr>]\<rparr>) \<and>
   fmlookup (LRUCache_lld.cache
      \<lparr>LRUCache_lld.capacity = 2,
       LRUCache_lld.cache = fmupd (Some ''A'') \<lparr>Node.key = Some ''A'', Node.value = Some (1::nat)\<rparr> fmempty,
       LRUCache_lld.dll = [Some ''A'']\<rparr>)
     (Some ''B'') = None \<and>
   LRUCache_lld_get (Some ''B'')
      \<lparr>LRUCache_lld.capacity = 2,
       LRUCache_lld.cache = fmupd (Some ''A'') \<lparr>Node.key = Some ''A'', Node.value = Some (1::nat)\<rparr> fmempty,
       LRUCache_lld.dll = [Some ''A'']\<rparr> =
     Inr (None,
      \<lparr>LRUCache_lld.capacity = 2,
       LRUCache_lld.cache = fmupd (Some ''A'') \<lparr>Node.key = Some ''A'', Node.value = Some (1::nat)\<rparr> fmempty,
       LRUCache_lld.dll = [Some ''A'']\<rparr>) \<and>
   fmlookup (LFUCache.keyToNodeMap (LFUCache_two_keys 5)) 3 = None \<and>
   LFUCache_get 3 (LFUCache_two_keys 5) = Inr (- 1, LFUCache_two_keys 5)"
  using get_absent_key [of
      "\<lparr>LRUCache.cache = fmupd (Some ''A'') \<lparr>NodeEntry.key = Some ''A'', NodeEntry.value = Some ''1''\<rparr> fmempty,
       LRUCache.capacity = 2,
       LRUCache.head_to_tail = [\<lparr>NodeEntry.key = Some ''A'', NodeEntry.value = Some ''1''\<rparr>]\<rparr>"
      "Some ''B''"
      "\<lparr>LRUCache_lld.capacity = 2,
       LRUCache_lld.cache = fmupd (Some ''A'') \<lparr>Node.key = Some ''A'', Node.value = Some (1::nat)\<rparr> fmempty,
       LRUCache_lld.dll = [Some ''A'']\<rparr>"
      "Some ''B''" "LFUCache_two_keys 5" 3]
  by (simp add: LFUCache_two_keys_def)

text \<open>
  C8, as it is stated, fails in \<^verbatim>\<open>LFUCache\<close>: in the new cache of capacity 1, where key 7
  is not stored, \<^verbatim>\<open>get(7)\<close> returns \<open>-1\<close>, and that is no empty value: after \<^verbatim>\<open>put(7, -1)\<close>,
  where key 7 is stored, \<^verbatim>\<open>get(7)\<close> returns the same \<open>-1\<close>.
\<close>

theorem LFUCache_miss_result_is_a_value:
  "LFUCache_get 7
     \<lparr>LFUCache.keyToNodeMap = fmempty, LFUCache.frequencyToListMap = fmempty,
      LFUCache.capacity = 1, LFUCache.minFrequency = 0\<rparr> =
     Inr (- 1,
     \<lparr>LFUCache.keyToNodeMap = fmempty, LFUCache.frequencyToListMap = fmempty,
      LFUCache.capacity = 1, LFUCache.minFrequency = 0\<rparr>) \<and>
   LFUCache_put 7 (- 1)
     \<lparr>LFUCache.keyToNodeMap = fmempty, LFUCache.frequencyToListMap = fmempty,
      LFUCache.capacity = 1, LFUCache.minFrequency = 0\<rparr> =
     Inr \<lparr>LFUCache.keyToNodeMap =
            fmupd 7 \<lparr>CacheNode.key = 7, CacheNode.value = - 1, CacheNode.frequency = 1\<rparr> fmempty,
          LFUCache.frequencyToListMap = fmupd 1 [7] fmempty,
          LFUCache.capacity = 1, LFUCache.minFrequency = 1\<rparr> \<and>
   LFUCache_get 7
     \<lparr>LFUCache.keyToNodeMap =
        fmupd 7 \<lparr>CacheNode.key = 7, CacheNode.value = - 1, CacheNode.frequency = 1\<rparr> fmempty,
      LFUCache.frequencyToListMap = fmupd 1 [7] fmempty,
      LFUCache.capacity = 1, LFUCache.minFrequency = 1\<rparr> =
     Inr (- 1,
     \<lparr>LFUCache.keyToNodeMap =
        fmupd 7 \<lparr>CacheNode.key = 7, CacheNode.value = - 1, CacheNode.frequency = 2\<rparr> fmempty,
      LFUCache.frequencyToListMap = fmupd 2 [7] fmempty,
      LFUCache.capacity = 1, LFUCache.minFrequency = 2\<rparr>)"
proof -
  let ?c0 = "\<lparr>LFUCache.keyToNodeMap = fmempty, LFUCache.frequencyToListMap = fmempty,
      LFUCache.capacity = 1, LFUCache.minFrequency = 0\<rparr>"
  let ?n = "\<lparr>CacheNode.key = 7, CacheNode.value = - 1, CacheNode.frequency = 1\<rparr>"
  let ?c1 = "\<lparr>LFUCache.keyToNodeMap = fmupd 7 ?n fmempty,
          LFUCache.frequencyToListMap = fmupd 1 [7] fmempty,
          LFUCache.capacity = 1, LFUCache.minFrequency = 1\<rparr>"
  have g0: "LFUCache_get 7 ?c0 = Inr (- 1, ?c0)" by (simp add: LFUCache_get_def)
  have p: "LFUCache_put 7 (- 1) ?c0 = Inr ?c1"
    by (simp add: LFUCache_put_absent_room LFUCache_inserted_def LFUCache_linked_first_def
        HashMap_size_def)
  have lk: "LFUCache_linked (LFUCache.keyToNodeMap ?c1) (LFUCache.frequencyToListMap ?c1)"
    by (auto simp: LFUCache_linked_def split: if_splits)
  have l: "fmlookup (LFUCache.keyToNodeMap ?c1) 7 = Some ?n" by simp
  have g1: "LFUCache_get 7 ?c1 = Inr (- 1, LFUCache_promoted ?n ?c1)"
    using LFUCache_updateFrequency_eq[OF lk l] by (simp add: LFUCache_get_def)
  have "LFUCache_promoted ?n ?c1 =
     \<lparr>LFUCache.keyToNodeMap =
        fmupd 7 \<lparr>CacheNode.key = 7, CacheNode.value = - 1, CacheNode.frequency = 2\<rparr> fmempty,
      LFUCache.frequencyToListMap = fmupd 2 [7] fmempty,
      LFUCache.capacity = 1, LFUCache.minFrequency = 2\<rparr>"
    by (simp add: LFUCache_promoted_def LFUCache_unlinked_def LFUCache_linked_first_def fmmap_fmupd
        fmdrop_fmupd_same)
  with g0 p g1 show ?thesis by simp
qed

section \<open>Removing a key that is not stored\<close>

text \<open>
  C9. \<^verbatim>\<open>remove\<close> is a method of \<^verbatim>\<open>LRUCache<K, V>\<close> only. In every state of that cache,
  \<^verbatim>\<open>remove\<close> of a key that is not stored does not throw and returns the cache as it was:
  map, values, size and chain.
\<close>

theorem remove_absent_key:
  "fmlookup (LRUCache_lld.cache c) k = None \<Longrightarrow> LRUCache_lld_remove k c = Inr c"
  by (rule LRUCache_lld_remove_absent)

theorem remove_absent_key_witness:
  "fmlookup (LRUCache_lld.cache
      \<lparr>LRUCache_lld.capacity = 2,
       LRUCache_lld.cache = fmupd (Some ''A'') \<lparr>Node.key = Some ''A'', Node.value = Some (1::nat)\<rparr> fmempty,
       LRUCache_lld.dll = [Some ''A'']\<rparr>)
     (Some ''X'') = None \<and>
   LRUCache_lld_remove (Some ''X'')
      \<lparr>LRUCache_lld.capacity = 2,
       LRUCache_lld.cache = fmupd (Some ''A'') \<lparr>Node.key = Some ''A'', Node.value = Some (1::nat)\<rparr> fmempty,
       LRUCache_lld.dll = [Some ''A'']\<rparr> =
     Inr \<lparr>LRUCache_lld.capacity = 2,
       LRUCache_lld.cache = fmupd (Some ''A'') \<lparr>Node.key = Some ''A'', Node.value = Some (1::nat)\<rparr> fmempty,
       LRUCache_lld.dll = [Some ''A'']\<rparr>"
  using remove_absent_key [of
      "\<lparr>LRUCache_lld.capacity = 2,
       LRUCache_lld.cache = fmupd (Some ''A'') \<lparr>Node.key = Some ''A'', Node.value = Some (1::nat)\<rparr> fmempty,
       LRUCache_lld.dll = [Some ''A'']\<rparr>" "Some ''X''"]
  by simp

section \<open>The miss value of \<^verbatim>\<open>LFUCache\<close>\<close>

text \<open>
  C10. In an \<^verbatim>\<open>LFUCache\<close> of capacity at least 1, after \<^verbatim>\<open>put(k, -1)\<close> the key \<open>k\<close> is stored and
  \<^verbatim>\<open>get(k)\<close> returns \<open>-1\<close>, which is also what \<^verbatim>\<open>get\<close> returns in that state for every other
  key, none of which is stored: the result of a hit is the result of a miss.
\<close>

theorem LFUCache_sentinel_collides:
  assumes "1 \<le> sint cap"
  shows "\<exists>c c'. LFUCache_run [LFU_put k (- 1)] (LFUCache_init cap) = Inr c \<and>
           fmlookup (LFUCache.keyToNodeMap c) k =
             Some \<lparr>CacheNode.key = k, CacheNode.value = - 1, CacheNode.frequency = 1\<rparr> \<and>
           LFUCache_get k c = Inr (- 1, c') \<and>
           (\<forall>j. j \<noteq> k \<longrightarrow>
              fmlookup (LFUCache.keyToNodeMap c) j = None \<and> LFUCache_get j c = Inr (- 1, c))"
proof -
  let ?c0 = "\<lparr>LFUCache.keyToNodeMap = fmempty, LFUCache.frequencyToListMap = fmempty,
          LFUCache.capacity = cap, LFUCache.minFrequency = 0\<rparr>"
  let ?n = "\<lparr>CacheNode.key = k, CacheNode.value = - 1, CacheNode.frequency = 1\<rparr>"
  have nz: "cap \<noteq> 0" using assms by auto
  have "HashMap_size (LFUCache.keyToNodeMap ?c0) \<noteq> sint (LFUCache.capacity ?c0)"
    using assms by (simp add: HashMap_size_def)
  then have p: "LFUCache_put k (- 1) ?c0 = Inr (LFUCache_inserted k (- 1) ?c0)"
    using nz by (intro LFUCache_put_absent_room) simp_all
  then have r: "LFUCache_run [LFU_put k (- 1)] (LFUCache_init cap) = Inr (LFUCache_inserted k (- 1) ?c0)"
    by (simp add: LFUCache_init_def)
  have l: "fmlookup (LFUCache.keyToNodeMap (LFUCache_inserted k (- 1) ?c0)) k = Some ?n"
    by (simp add: LFUCache_inserted_def)
  have g: "LFUCache_get k (LFUCache_inserted k (- 1) ?c0) =
             Inr (- 1, LFUCache_promoted ?n (LFUCache_inserted k (- 1) ?c0))"
    using LFUCache_get_hit[OF LFUCache_run_inv(1)[OF r] l] by simp
  have "fmlookup (LFUCache.keyToNodeMap (LFUCache_inserted k (- 1) ?c0)) j = None \<and>
        LFUCache_get j (LFUCache_inserted k (- 1) ?c0) = Inr (- 1, LFUCache_inserted k (- 1) ?c0)"
    if "j \<noteq> k" for j
    using that by (simp add: LFUCache_inserted_def LFUCache_get_def)
  with r l g show ?thesis by blast
qed

theorem LFUCache_sentinel_collides_witness:
  "1 \<le> sint (3 :: jint) \<and>
   (\<exists>c c'. LFUCache_run [LFU_put 5 (- 1)] (LFUCache_init 3) = Inr c \<and>
      fmlookup (LFUCache.keyToNodeMap c) 5 =
        Some \<lparr>CacheNode.key = 5, CacheNode.value = - 1, CacheNode.frequency = 1\<rparr> \<and>
      LFUCache_get 5 c = Inr (- 1, c') \<and>
      fmlookup (LFUCache.keyToNodeMap c) 6 = None \<and> LFUCache_get 6 c = Inr (- 1, c))"
proof -
  have h: "1 \<le> sint (3 :: jint)" by simp
  from LFUCache_sentinel_collides [OF h, of 5] obtain c c' where
    c: "LFUCache_run [LFU_put 5 (- 1)] (LFUCache_init 3) = Inr c"
      "fmlookup (LFUCache.keyToNodeMap c) 5 =
        Some \<lparr>CacheNode.key = 5, CacheNode.value = - 1, CacheNode.frequency = 1\<rparr>"
      "LFUCache_get 5 c = Inr (- 1, c')"
      "\<forall>j. j \<noteq> 5 \<longrightarrow> fmlookup (LFUCache.keyToNodeMap c) j = None \<and> LFUCache_get j c = Inr (- 1, c)"
    by blast
  from c(4) have "fmlookup (LFUCache.keyToNodeMap c) 6 = None \<and> LFUCache_get 6 c = Inr (- 1, c)"
    by simp
  with h c(1,2,3) show ?thesis by blast
qed

section \<open>put of a stored key\<close>

lemma map_remove1_distinct:
  "distinct (map f l) \<Longrightarrow> x \<in> set l \<Longrightarrow> map f (remove1 x l) = remove1 (f x) (map f l)"
  by (induction l) (auto simp: rev_image_eqI)

lemma LRUCache_put_stored:
  assumes "LRUCache_inv c" "fmlookup (LRUCache.cache c) k = Some n"
  shows "\<exists>c' c''. LRUCache_put k v c = Inr c' \<and>
           HashMap_size (LRUCache.cache c') = HashMap_size (LRUCache.cache c) \<and>
           fmlookup (LRUCache.cache c') k = Some \<lparr>NodeEntry.key = k, NodeEntry.value = v\<rparr> \<and>
           (\<forall>j. j \<noteq> k \<longrightarrow> fmlookup (LRUCache.cache c') j = fmlookup (LRUCache.cache c) j) \<and>
           LRUCache_get k c = Inr (NodeEntry.value n, c'') \<and>
           map NodeEntry.key (LRUCache.head_to_tail c') = map NodeEntry.key (LRUCache.head_to_tail c'') \<and>
           map NodeEntry.key (LRUCache.head_to_tail c') =
             k # remove1 k (map NodeEntry.key (LRUCache.head_to_tail c))"
proof -
  let ?l = "LRUCache.head_to_tail c"
  have lk: "LRUCache_linked (LRUCache.cache c) ?l" using assms(1) by (simp add: LRUCache_inv_def)
  from LRUCache_linked_lookup[OF lk assms(2)]
  have n: "n \<in> set ?l" "NodeEntry.key n = k" by simp_all
  have d: "distinct (map NodeEntry.key ?l)" using lk by (simp add: LRUCache_linked_def)
  have m: "map NodeEntry.key (remove1 n ?l) = remove1 k (map NodeEntry.key ?l)"
    using map_remove1_distinct[OF d n(1)] n(2) by simp
  show ?thesis
    using LRUCache_put_present(1)[OF assms, of v] LRUCache_get_hit(1)[OF assms] n(2) m assms(2)
    by (simp add: HashMap_size_fmupd_present)
qed

lemma LFUCache_put_stored:
  assumes "LFUCache_inv c" "fmlookup (LFUCache.keyToNodeMap c) k = Some n"
  shows "\<exists>c' c''. LFUCache_put k v c = Inr c' \<and>
           HashMap_size (LFUCache.keyToNodeMap c') = HashMap_size (LFUCache.keyToNodeMap c) \<and>
           fmlookup (LFUCache.keyToNodeMap c') k =
             Some (n\<lparr>CacheNode.value := v, CacheNode.frequency := CacheNode.frequency n + 1\<rparr>) \<and>
           (\<forall>j. j \<noteq> k \<longrightarrow> fmlookup (LFUCache.keyToNodeMap c') j = fmlookup (LFUCache.keyToNodeMap c) j) \<and>
           LFUCache_get k c = Inr (CacheNode.value n, c'') \<and>
           fmlookup (LFUCache.keyToNodeMap c'') k =
             Some (n\<lparr>CacheNode.frequency := CacheNode.frequency n + 1\<rparr>) \<and>
           LFUCache.frequencyToListMap c' = LFUCache.frequencyToListMap c'' \<and>
           LFUCache.minFrequency c' = LFUCache.minFrequency c''"
proof -
  have lk: "LFUCache_linked (LFUCache.keyToNodeMap c) (LFUCache.frequencyToListMap c)"
    using assms(1) by (simp add: LFUCache_inv_def)
  have k: "CacheNode.key n = k" using LFUCache_linked_node(1)[OF lk assms(2)] .
  show ?thesis
    using LFUCache_put_present(1)[OF assms, of v] LFUCache_get_hit[OF assms] k assms(2)
    by (simp add: LFUCache_promoted_def HashMap_size_fmupd_present)
qed

lemma LRUCache_put_twice:
  assumes "1 \<le> sint cap"
  shows "\<exists>c1 c2. LRUCache_run [LRU_put a v1, LRU_put a v2] (LRUCache_init cap) = Inr c1 \<and>
           HashMap_size (LRUCache.cache c1) = 1 \<and> LRUCache_get a c1 = Inr (v2, c2)"
  using assms
  by (simp add: LRUCache_init_def LRUCache_put_def LRUCache_get_def LRUCache_addNode_def
      LRUCache_remove_def HashMap_size_def Let_def)

lemma LFUCache_put_twice:
  assumes "1 \<le> sint cap"
  shows "\<exists>c1 c2. LFUCache_run [LFU_put a v1, LFU_put a v2] (LFUCache_init cap) = Inr c1 \<and>
           HashMap_size (LFUCache.keyToNodeMap c1) = 1 \<and> LFUCache_get a c1 = Inr (v2, c2)"
proof -
  let ?c0 = "\<lparr>LFUCache.keyToNodeMap = fmempty, LFUCache.frequencyToListMap = fmempty,
          LFUCache.capacity = cap, LFUCache.minFrequency = 0\<rparr>"
  let ?n = "\<lparr>CacheNode.key = a, CacheNode.value = v1, CacheNode.frequency = 1\<rparr>"
  have nz: "cap \<noteq> 0" using assms by auto
  have "HashMap_size (LFUCache.keyToNodeMap ?c0) \<noteq> sint (LFUCache.capacity ?c0)"
    using assms by (simp add: HashMap_size_def)
  then have p: "LFUCache_put a v1 ?c0 = Inr (LFUCache_inserted a v1 ?c0)"
    using nz by (intro LFUCache_put_absent_room) simp_all
  then have r: "LFUCache_run [LFU_put a v1] (LFUCache_init cap) = Inr (LFUCache_inserted a v1 ?c0)"
    by (simp add: LFUCache_init_def)
  have l: "fmlookup (LFUCache.keyToNodeMap (LFUCache_inserted a v1 ?c0)) a = Some ?n"
    by (simp add: LFUCache_inserted_def)
  from LFUCache_put_stored[OF LFUCache_run_inv(1)[OF r] l, of v2] obtain c1 where
    c1: "LFUCache_put a v2 (LFUCache_inserted a v1 ?c0) = Inr c1"
      "HashMap_size (LFUCache.keyToNodeMap c1) =
         HashMap_size (LFUCache.keyToNodeMap (LFUCache_inserted a v1 ?c0))"
      "fmlookup (LFUCache.keyToNodeMap c1) a =
         Some (?n\<lparr>CacheNode.value := v2, CacheNode.frequency := CacheNode.frequency ?n + 1\<rparr>)"
    by blast
  have r1: "LFUCache_run [LFU_put a v1, LFU_put a v2] (LFUCache_init cap) = Inr c1"
    using p c1(1) by (simp add: LFUCache_init_def)
  have "HashMap_size (LFUCache.keyToNodeMap c1) = 1"
    using c1(2) by (simp add: LFUCache_inserted_def HashMap_size_def)
  moreover have "\<exists>c2. LFUCache_get a c1 = Inr (v2, c2)"
    using LFUCache_get_hit[OF LFUCache_run_inv(1)[OF r1] c1(3)] by simp
  ultimately show ?thesis using r1 by blast
qed

text \<open>
  In every state that calls on a new \<^verbatim>\<open>LRUCache<T>\<close> or on a new \<^verbatim>\<open>LFUCache\<close> lead to,
  \<^verbatim>\<open>put\<close> of a stored key does not throw, leaves the number of keys and every other entry
  as they were, and stores the new value. It records the access as \<^verbatim>\<open>get\<close> of that key does
  in the same state: in \<^verbatim>\<open>LRUCache<T>\<close> the key moves to the head of the chain and the
  chain is the one \<^verbatim>\<open>get\<close> leaves; in \<^verbatim>\<open>LFUCache\<close> the \<^verbatim>\<open>frequency\<close> field is the old one plus
  1 in 32-bit arithmetic, as \<^verbatim>\<open>get\<close> leaves it, and the frequency lists and \<open>minFrequency\<close>
  are the ones \<^verbatim>\<open>get\<close> leaves. In a new cache of capacity at least 1,
  \<^verbatim>\<open>put(A,1); put(A,2)\<close> leaves one key, and \<^verbatim>\<open>get(A)\<close> then returns 2.
\<close>

lemma put_stored_key:
  "(LRUCache_run xs (LRUCache_init cap) = Inr c \<and> fmlookup (LRUCache.cache c) k = Some n \<longrightarrow>
      (\<exists>c' c''. LRUCache_put k v c = Inr c' \<and>
         HashMap_size (LRUCache.cache c') = HashMap_size (LRUCache.cache c) \<and>
         fmlookup (LRUCache.cache c') k = Some \<lparr>NodeEntry.key = k, NodeEntry.value = v\<rparr> \<and>
         (\<forall>j. j \<noteq> k \<longrightarrow> fmlookup (LRUCache.cache c') j = fmlookup (LRUCache.cache c) j) \<and>
         LRUCache_get k c = Inr (NodeEntry.value n, c'') \<and>
         map NodeEntry.key (LRUCache.head_to_tail c') = map NodeEntry.key (LRUCache.head_to_tail c'') \<and>
         map NodeEntry.key (LRUCache.head_to_tail c') =
           k # remove1 k (map NodeEntry.key (LRUCache.head_to_tail c)))) \<and>
   (LFUCache_run ys (LFUCache_init cap') = Inr d \<and> fmlookup (LFUCache.keyToNodeMap d) i = Some m \<longrightarrow>
      (\<exists>d' d''. LFUCache_put i w d = Inr d' \<and>
         HashMap_size (LFUCache.keyToNodeMap d') = HashMap_size (LFUCache.keyToNodeMap d) \<and>
         fmlookup (LFUCache.keyToNodeMap d') i =
           Some (m\<lparr>CacheNode.value := w, CacheNode.frequency := CacheNode.frequency m + 1\<rparr>) \<and>
         (\<forall>j. j \<noteq> i \<longrightarrow> fmlookup (LFUCache.keyToNodeMap d') j = fmlookup (LFUCache.keyToNodeMap d) j) \<and>
         LFUCache_get i d = Inr (CacheNode.value m, d'') \<and>
         fmlookup (LFUCache.keyToNodeMap d'') i =
           Some (m\<lparr>CacheNode.frequency := CacheNode.frequency m + 1\<rparr>) \<and>
         LFUCache.frequencyToListMap d' = LFUCache.frequencyToListMap d'' \<and>
         LFUCache.minFrequency d' = LFUCache.minFrequency d'')) \<and>
   (1 \<le> sint cap1 \<longrightarrow>
      (\<exists>c1 c2. LRUCache_run [LRU_put a v1, LRU_put a v2] (LRUCache_init cap1) = Inr c1 \<and>
         HashMap_size (LRUCache.cache c1) = 1 \<and> LRUCache_get a c1 = Inr (v2, c2)) \<and>
      (\<exists>d1 d2. LFUCache_run [LFU_put b w1, LFU_put b w2] (LFUCache_init cap1) = Inr d1 \<and>
         HashMap_size (LFUCache.keyToNodeMap d1) = 1 \<and> LFUCache_get b d1 = Inr (w2, d2)))"
proof (intro conjI impI)
  assume a: "LRUCache_run xs (LRUCache_init cap) = Inr c \<and> fmlookup (LRUCache.cache c) k = Some n"
  then have "LRUCache_inv c" using LRUCache_run_inv(1) by blast
  from LRUCache_put_stored[OF this, of k n v] a
  show "\<exists>c' c''. LRUCache_put k v c = Inr c' \<and>
         HashMap_size (LRUCache.cache c') = HashMap_size (LRUCache.cache c) \<and>
         fmlookup (LRUCache.cache c') k = Some \<lparr>NodeEntry.key = k, NodeEntry.value = v\<rparr> \<and>
         (\<forall>j. j \<noteq> k \<longrightarrow> fmlookup (LRUCache.cache c') j = fmlookup (LRUCache.cache c) j) \<and>
         LRUCache_get k c = Inr (NodeEntry.value n, c'') \<and>
         map NodeEntry.key (LRUCache.head_to_tail c') = map NodeEntry.key (LRUCache.head_to_tail c'') \<and>
         map NodeEntry.key (LRUCache.head_to_tail c') =
           k # remove1 k (map NodeEntry.key (LRUCache.head_to_tail c))"
    by blast
next
  assume a: "LFUCache_run ys (LFUCache_init cap') = Inr d \<and> fmlookup (LFUCache.keyToNodeMap d) i = Some m"
  then have "LFUCache_inv d" using LFUCache_run_inv(1) by blast
  from LFUCache_put_stored[OF this, of i m w] a
  show "\<exists>d' d''. LFUCache_put i w d = Inr d' \<and>
         HashMap_size (LFUCache.keyToNodeMap d') = HashMap_size (LFUCache.keyToNodeMap d) \<and>
         fmlookup (LFUCache.keyToNodeMap d') i =
           Some (m\<lparr>CacheNode.value := w, CacheNode.frequency := CacheNode.frequency m + 1\<rparr>) \<and>
         (\<forall>j. j \<noteq> i \<longrightarrow> fmlookup (LFUCache.keyToNodeMap d') j = fmlookup (LFUCache.keyToNodeMap d) j) \<and>
         LFUCache_get i d = Inr (CacheNode.value m, d'') \<and>
         fmlookup (LFUCache.keyToNodeMap d'') i =
           Some (m\<lparr>CacheNode.frequency := CacheNode.frequency m + 1\<rparr>) \<and>
         LFUCache.frequencyToListMap d' = LFUCache.frequencyToListMap d'' \<and>
         LFUCache.minFrequency d' = LFUCache.minFrequency d''"
    by blast
next
  assume "1 \<le> sint cap1"
  then show "\<exists>c1 c2. LRUCache_run [LRU_put a v1, LRU_put a v2] (LRUCache_init cap1) = Inr c1 \<and>
         HashMap_size (LRUCache.cache c1) = 1 \<and> LRUCache_get a c1 = Inr (v2, c2)"
    by (rule LRUCache_put_twice)
next
  assume "1 \<le> sint cap1"
  then show "\<exists>d1 d2. LFUCache_run [LFU_put b w1, LFU_put b w2] (LFUCache_init cap1) = Inr d1 \<and>
         HashMap_size (LFUCache.keyToNodeMap d1) = 1 \<and> LFUCache_get b d1 = Inr (w2, d2)"
    by (rule LFUCache_put_twice)
qed

lemma put_stored_key_example:
  "LRUCache_run [LRU_put (Some ''A'') (Some ''1'')] (LRUCache_init 2) =
     Inr \<lparr>LRUCache.cache = fmupd (Some ''A'') \<lparr>NodeEntry.key = Some ''A'', NodeEntry.value = Some ''1''\<rparr> fmempty,
          LRUCache.capacity = 2,
          LRUCache.head_to_tail = [\<lparr>NodeEntry.key = Some ''A'', NodeEntry.value = Some ''1''\<rparr>]\<rparr> \<and>
   (\<exists>c' c''. LRUCache_put (Some ''A'') (Some ''2'')
        \<lparr>LRUCache.cache = fmupd (Some ''A'') \<lparr>NodeEntry.key = Some ''A'', NodeEntry.value = Some ''1''\<rparr> fmempty,
         LRUCache.capacity = 2,
         LRUCache.head_to_tail = [\<lparr>NodeEntry.key = Some ''A'', NodeEntry.value = Some ''1''\<rparr>]\<rparr> = Inr c' \<and>
      HashMap_size (LRUCache.cache c') = 1 \<and>
      fmlookup (LRUCache.cache c') (Some ''A'') =
        Some \<lparr>NodeEntry.key = Some ''A'', NodeEntry.value = Some ''2''\<rparr> \<and>
      LRUCache_get (Some ''A'')
        \<lparr>LRUCache.cache = fmupd (Some ''A'') \<lparr>NodeEntry.key = Some ''A'', NodeEntry.value = Some ''1''\<rparr> fmempty,
         LRUCache.capacity = 2,
         LRUCache.head_to_tail = [\<lparr>NodeEntry.key = Some ''A'', NodeEntry.value = Some ''1''\<rparr>]\<rparr> =
        Inr (Some ''1'', c'') \<and>
      map NodeEntry.key (LRUCache.head_to_tail c') = map NodeEntry.key (LRUCache.head_to_tail c'')) \<and>
   LFUCache_run [LFU_put 1 10] (LFUCache_init 2) =
     Inr \<lparr>LFUCache.keyToNodeMap =
            fmupd 1 \<lparr>CacheNode.key = 1, CacheNode.value = 10, CacheNode.frequency = 1\<rparr> fmempty,
          LFUCache.frequencyToListMap = fmupd 1 [1] fmempty,
          LFUCache.capacity = 2, LFUCache.minFrequency = 1\<rparr> \<and>
   (\<exists>d' d''. LFUCache_put 1 20
        \<lparr>LFUCache.keyToNodeMap =
            fmupd 1 \<lparr>CacheNode.key = 1, CacheNode.value = 10, CacheNode.frequency = 1\<rparr> fmempty,
          LFUCache.frequencyToListMap = fmupd 1 [1] fmempty,
          LFUCache.capacity = 2, LFUCache.minFrequency = 1\<rparr> = Inr d' \<and>
      HashMap_size (LFUCache.keyToNodeMap d') = 1 \<and>
      fmlookup (LFUCache.keyToNodeMap d') 1 =
        Some \<lparr>CacheNode.key = 1, CacheNode.value = 20, CacheNode.frequency = 2\<rparr> \<and>
      LFUCache_get 1
        \<lparr>LFUCache.keyToNodeMap =
            fmupd 1 \<lparr>CacheNode.key = 1, CacheNode.value = 10, CacheNode.frequency = 1\<rparr> fmempty,
          LFUCache.frequencyToListMap = fmupd 1 [1] fmempty,
          LFUCache.capacity = 2, LFUCache.minFrequency = 1\<rparr> = Inr (10, d'') \<and>
      fmlookup (LFUCache.keyToNodeMap d'') 1 =
        Some \<lparr>CacheNode.key = 1, CacheNode.value = 10, CacheNode.frequency = 2\<rparr> \<and>
      LFUCache.frequencyToListMap d' = LFUCache.frequencyToListMap d'' \<and>
      LFUCache.minFrequency d' = LFUCache.minFrequency d'') \<and>
   1 \<le> sint (1 :: jint) \<and>
   (\<exists>c1 c2. LRUCache_run [LRU_put (Some ''A'') (Some ''1''), LRU_put (Some ''A'') (Some ''2'')]
                (LRUCache_init 1) = Inr c1 \<and>
      HashMap_size (LRUCache.cache c1) = 1 \<and> LRUCache_get (Some ''A'') c1 = Inr (Some ''2'', c2)) \<and>
   (\<exists>d1 d2. LFUCache_run [LFU_put 7 1, LFU_put 7 2] (LFUCache_init 1) = Inr d1 \<and>
      HashMap_size (LFUCache.keyToNodeMap d1) = 1 \<and> LFUCache_get 7 d1 = Inr (2, d2))"
proof -
  let ?N0 = "\<lparr>NodeEntry.key = Some ''A'', NodeEntry.value = Some ''1''\<rparr>"
  let ?C0 = "\<lparr>LRUCache.cache = fmupd (Some ''A'') ?N0 fmempty, LRUCache.capacity = 2,
          LRUCache.head_to_tail = [?N0]\<rparr>"
  let ?M0 = "\<lparr>CacheNode.key = 1, CacheNode.value = 10, CacheNode.frequency = 1\<rparr>"
  let ?D0 = "\<lparr>LFUCache.keyToNodeMap = fmupd 1 ?M0 fmempty,
          LFUCache.frequencyToListMap = fmupd 1 [1] fmempty,
          LFUCache.capacity = 2, LFUCache.minFrequency = 1\<rparr>"
  note T = put_stored_key [where xs = "[LRU_put (Some ''A'') (Some ''1'')]" and cap = 2 and c = ?C0
      and k = "Some ''A''" and n = ?N0 and v = "Some ''2''"
      and ys = "[LFU_put 1 10]" and cap' = 2 and d = ?D0 and i = 1 and m = ?M0 and w = 20
      and ?cap1.0 = 1 and a = "Some ''A''" and ?v1.0 = "Some ''1''" and ?v2.0 = "Some ''2''"
      and b = 7 and ?w1.0 = 1 and ?w2.0 = 2]
  have r1: "LRUCache_run [LRU_put (Some ''A'') (Some ''1'')] (LRUCache_init 2) = Inr ?C0"
    by (simp add: LRUCache_init_def LRUCache_put_def LRUCache_addNode_def HashMap_size_def Let_def)
  have l1: "fmlookup (LRUCache.cache ?C0) (Some ''A'') = Some ?N0" by simp
  have s1: "HashMap_size (LRUCache.cache ?C0) = 1" by (simp add: HashMap_size_def)
  have r2: "LFUCache_run [LFU_put 1 10] (LFUCache_init 2) = Inr ?D0"
    by (simp add: LFUCache_init_def LFUCache_put_absent_room LFUCache_inserted_def
        LFUCache_linked_first_def HashMap_size_def)
  have l2: "fmlookup (LFUCache.keyToNodeMap ?D0) 1 = Some ?M0" by simp
  have s2: "HashMap_size (LFUCache.keyToNodeMap ?D0) = 1" by (simp add: HashMap_size_def)
  have h3: "1 \<le> sint (1 :: jint)" by simp
  from T r1 l1 s1 have "\<exists>c' c''. LRUCache_put (Some ''A'') (Some ''2'') ?C0 = Inr c' \<and>
      HashMap_size (LRUCache.cache c') = 1 \<and>
      fmlookup (LRUCache.cache c') (Some ''A'') =
        Some \<lparr>NodeEntry.key = Some ''A'', NodeEntry.value = Some ''2''\<rparr> \<and>
      LRUCache_get (Some ''A'') ?C0 = Inr (Some ''1'', c'') \<and>
      map NodeEntry.key (LRUCache.head_to_tail c') = map NodeEntry.key (LRUCache.head_to_tail c'')"
    by (elim conjE) (fastforce simp del: LRUCache_run.simps)
  moreover from T r2 l2 s2 have "\<exists>d' d''. LFUCache_put 1 20 ?D0 = Inr d' \<and>
      HashMap_size (LFUCache.keyToNodeMap d') = 1 \<and>
      fmlookup (LFUCache.keyToNodeMap d') 1 =
        Some \<lparr>CacheNode.key = 1, CacheNode.value = 20, CacheNode.frequency = 2\<rparr> \<and>
      LFUCache_get 1 ?D0 = Inr (10, d'') \<and>
      fmlookup (LFUCache.keyToNodeMap d'') 1 =
        Some \<lparr>CacheNode.key = 1, CacheNode.value = 10, CacheNode.frequency = 2\<rparr> \<and>
      LFUCache.frequencyToListMap d' = LFUCache.frequencyToListMap d'' \<and>
      LFUCache.minFrequency d' = LFUCache.minFrequency d''"
    by (elim conjE) (fastforce simp del: LFUCache_run.simps)
  moreover from T h3 have "(\<exists>c1 c2. LRUCache_run [LRU_put (Some ''A'') (Some ''1''), LRU_put (Some ''A'') (Some ''2'')]
                (LRUCache_init 1) = Inr c1 \<and>
      HashMap_size (LRUCache.cache c1) = 1 \<and> LRUCache_get (Some ''A'') c1 = Inr (Some ''2'', c2)) \<and>
   (\<exists>d1 d2. LFUCache_run [LFU_put 7 1, LFU_put 7 2] (LFUCache_init 1) = Inr d1 \<and>
      HashMap_size (LFUCache.keyToNodeMap d1) = 1 \<and> LFUCache_get 7 d1 = Inr (2, d2))"
    by blast
  ultimately show ?thesis using r1 r2 h3 by blast
qed

text \<open>
  As long as no more than \<open>2^31 - 2\<close> calls have been made before it, \<^verbatim>\<open>put\<close> of a stored key
  takes the \<^verbatim>\<open>frequency\<close> field of its node up by 1 as a number.
\<close>

lemma LFUCache_put_stored_increment:
  assumes "length ys \<le> 2147483646" "LFUCache_run ys (LFUCache_init cap) = Inr d"
    "fmlookup (LFUCache.keyToNodeMap d) i = Some m"
  shows "\<exists>d' m'. LFUCache_put i w d = Inr d' \<and> fmlookup (LFUCache.keyToNodeMap d') i = Some m' \<and>
           CacheNode.value m' = w \<and>
           sint (CacheNode.frequency m') = sint (CacheNode.frequency m) + 1"
proof -
  obtain c0 where c0: "LFUCache_init cap = Inr c0" by (simp add: LFUCache_init_def)
  have i0: "LFUCache_inv c0" using LFUCache_inv_init[OF c0] by simp
  have w0: "LFUCache_counts_within 0 c0"
    using c0 by (auto simp: LFUCache_init_def LFUCache_counts_within_def)
  from LFUCache_counts_within_run[OF i0 w0, of ys] assms(1,2) c0
  have d: "LFUCache_inv d" "LFUCache_counts_within (int (length ys)) d" by auto
  have lk: "LFUCache_linked (LFUCache.keyToNodeMap d) (LFUCache.frequencyToListMap d)"
    using d(1) by (simp add: LFUCache_inv_def)
  from LFUCache_linked_node(2)[OF lk assms(3)] obtain l where
    "fmlookup (LFUCache.frequencyToListMap d) (CacheNode.frequency m) = Some l"
    by blast
  then have "sint (CacheNode.frequency m) \<le> int (length ys)"
    using d(2) by (auto simp: LFUCache_counts_within_def)
  then have "sint (CacheNode.frequency m) < 2147483647" using assms(1) by simp
  then have "sint (CacheNode.frequency m + 1) = sint (CacheNode.frequency m) + 1"
    by (rule sint_succ)
  then show ?thesis
    using LFUCache_put_stored[OF d(1) assms(3), of w] by auto
qed

text \<open>
  C7 at \<^verbatim>\<open>new LFUCache(2)\<close>, \<^verbatim>\<open>put(1,1); put(2,2)\<close>, \<open>2^31 - 2\<close> times \<^verbatim>\<open>get(2)\<close> and then
  \<^verbatim>\<open>put(2,5)\<close>. No call throws. Before the last call the sequence has used key 2
  \<open>2^31 - 1\<close> times and the \<^verbatim>\<open>frequency\<close> field of its node is \<open>2^31 - 1\<close>. The last call is
  \<^verbatim>\<open>put\<close> of a stored key: it stores the value 5 and leaves the field at \<open>- 2^31\<close>. The
  \<^verbatim>\<open>frequency++\<close> of \<^verbatim>\<open>updateFrequency\<close> has wrapped around: the field has not gone up by 1.
\<close>

theorem LFUCache_put_stored_wraps:
  "\<exists>c c' m m'.
     LFUCache_run ([LFU_put 1 1, LFU_put 2 2] @ replicate 2147483646 (LFU_get 2)) (LFUCache_init 2) = Inr c \<and>
     LFUCache_uses 2 ([LFU_put 1 1, LFU_put 2 2] @ replicate 2147483646 (LFU_get 2)) = 2147483647 \<and>
     fmlookup (LFUCache.keyToNodeMap c) 2 = Some m \<and>
     sint (CacheNode.frequency m) = 2147483647 \<and>
     LFUCache_put 2 5 c = Inr c' \<and>
     fmlookup (LFUCache.keyToNodeMap c') 2 = Some m' \<and>
     CacheNode.value m' = 5 \<and>
     sint (CacheNode.frequency m') = - 2147483648 \<and>
     sint (CacheNode.frequency m') \<noteq> sint (CacheNode.frequency m) + 1"
proof -
  let ?c = "LFUCache_two_keys 2147483647"
  let ?m = "\<lparr>CacheNode.key = 2, CacheNode.value = 2, CacheNode.frequency = 2147483647\<rparr>"
  have u: "LFUCache_uses 2 ([LFU_put 1 1, LFU_put 2 2] @ replicate 2147483646 (LFU_get 2)) = 2147483647"
    by (simp add: LFUCache_uses_append LFUCache_uses_gets) (simp add: LFUCache_uses_def)
  have l: "fmlookup (LFUCache.keyToNodeMap ?c) 2 = Some ?m"
    by (simp add: LFUCache_two_keys_def)
  have i: "LFUCache_inv ?c" using LFUCache_run_inv(1)[OF LFUCache_two_keys_max] .
  from LFUCache_put_stored[OF i l, of 5] obtain c' where
    c': "LFUCache_put 2 5 ?c = Inr c'"
      "fmlookup (LFUCache.keyToNodeMap c') 2 =
         Some (?m\<lparr>CacheNode.value := 5, CacheNode.frequency := CacheNode.frequency ?m + 1\<rparr>)"
    by blast
  let ?m' = "?m\<lparr>CacheNode.value := 5, CacheNode.frequency := CacheNode.frequency ?m + 1\<rparr>"
  have f: "sint (CacheNode.frequency ?m) = 2147483647" "CacheNode.value ?m' = 5"
    "sint (CacheNode.frequency ?m') = - 2147483648"
    by simp_all
  then have "sint (CacheNode.frequency ?m') \<noteq> sint (CacheNode.frequency ?m) + 1" by simp
  with LFUCache_two_keys_max u l c' f show ?thesis by blast
qed

section \<open>\<open>minFrequency\<close>\<close>

text \<open>
  As long as no more than \<open>2^31 - 1\<close> calls have been made on an \<^verbatim>\<open>LFUCache\<close>, no counter
  has wrapped around, and \<open>minFrequency\<close> is the smallest frequency that has a list whenever
  the cache holds a key.
\<close>

lemma LFUCache_minFrequency_ok_run:
  assumes "length xs \<le> 2147483647" "LFUCache_run xs (LFUCache_init cap) = Inr c"
    "fmdom' (LFUCache.keyToNodeMap c) \<noteq> {}"
  shows "LFUCache_minFrequency_ok c"
proof -
  obtain c0 where c0: "LFUCache_init cap = Inr c0" by (simp add: LFUCache_init_def)
  have i0: "LFUCache_inv c0" using LFUCache_inv_init[OF c0] by simp
  have w0: "LFUCache_counts_within 0 c0"
    using c0 by (auto simp: LFUCache_init_def LFUCache_counts_within_def)
  from LFUCache_counts_within_run[OF i0 w0, of xs] assms(1,2) c0
  have "LFUCache_inv c \<and> LFUCache_counts_within (int (length xs)) c" by auto
  then show ?thesis using assms(3) LFUCache_minFrequency_ok_within by blast
qed

lemma replicate_gets:
  "replicate 2147483647 (LFU_get 2) = LFU_get 2 # replicate 2147483646 (LFU_get 2)"
proof -
  have "(2147483647 :: nat) = Suc 2147483646" by simp
  then show ?thesis by (simp only: replicate_Suc)
qed

lemma LFUCache_two_keys_reached:
  "LFUCache_run ([LFU_put 1 1, LFU_put 2 2] @ replicate 2147483647 (LFU_get 2)) (LFUCache_init 2) =
     Inr (LFUCache_two_keys (- 2147483648))"
  using LFUCache_two_keys_overflow by (simp only: replicate_gets append.simps)

text \<open>
  C4 at \<^verbatim>\<open>new LFUCache(2)\<close>, \<^verbatim>\<open>put(1,1); put(2,2)\<close> and then \<open>2^31 - 1\<close> times
  \<^verbatim>\<open>get(2)\<close>. No call throws. The counter of key 2 has gone from 1 up to \<open>2^31 - 1\<close> and on
  to \<open>- 2^31\<close>, so the lists are the one of frequency 1, with key 1, and the one of
  frequency \<open>- 2^31\<close>, with key 2, while \<open>minFrequency\<close> is still 1: it is not the smallest
  frequency that has a non-empty list.
\<close>

theorem LFUCache_minFrequency_after_wrap:
  "\<exists>c. LFUCache_run ([LFU_put 1 1, LFU_put 2 2] @ replicate 2147483647 (LFU_get 2))
          (LFUCache_init 2) = Inr c \<and>
        fmdom' (LFUCache.keyToNodeMap c) = {1, 2} \<and>
        LFUCache.minFrequency c = 1 \<and>
        fmlookup (LFUCache.frequencyToListMap c) 1 = Some [1] \<and>
        fmlookup (LFUCache.frequencyToListMap c) (- 2147483648) = Some [2] \<and>
        LFUCache_frequencies c = {- 2147483648, 1} \<and>
        sint (- 2147483648 :: jint) < sint (LFUCache.minFrequency c) \<and>
        \<not> LFUCache_minFrequency_ok c"
proof -
  let ?c = "LFUCache_two_keys (- 2147483648)"
  have "fmdom' (LFUCache.keyToNodeMap ?c) = {1, 2}"
    by (auto simp: LFUCache_two_keys_def)
  moreover have "LFUCache.minFrequency ?c = 1"
    "fmlookup (LFUCache.frequencyToListMap ?c) 1 = Some [1]"
    "fmlookup (LFUCache.frequencyToListMap ?c) (- 2147483648) = Some [2]"
    "sint (- 2147483648 :: jint) < sint (LFUCache.minFrequency ?c)"
    by (simp_all add: LFUCache_two_keys_def)
  ultimately show ?thesis
    using LFUCache_two_keys_reached LFUCache_two_keys_not_ok LFUCache_two_keys_frequencies
    by blast
qed

section \<open>LFU eviction\<close>

text \<open>
  When \<^verbatim>\<open>put\<close> of a key that is not stored finds the cache full, in a state that calls on
  a new cache lead to, it does not throw and the node it evicts is the last one of the
  list of \<open>minFrequency\<close>.
\<close>

lemma LFUCache_eviction_takes_tail:
  assumes "LFUCache_run xs (LFUCache_init cap) = Inr c" "fmlookup (LFUCache.keyToNodeMap c) k = None"
    "cap \<noteq> 0" "HashMap_size (LFUCache.keyToNodeMap c) = sint cap"
  shows "\<exists>l n. fmlookup (LFUCache.frequencyToListMap c) (LFUCache.minFrequency c) = Some l \<and> l \<noteq> [] \<and>
           fmlookup (LFUCache.keyToNodeMap c) (last l) = Some n \<and>
           CacheNode.frequency n = LFUCache.minFrequency c \<and>
           LFUCache_put k v c = Inr (LFUCache_inserted k v (LFUCache_evicted (last l) c)) \<and>
           fmdom' (LFUCache.keyToNodeMap (LFUCache_inserted k v (LFUCache_evicted (last l) c))) =
             insert k (fmdom' (LFUCache.keyToNodeMap c) - {last l})"
proof -
  from LFUCache_run_inv[OF assms(1)] have i: "LFUCache_inv c" "LFUCache.capacity c = cap" .
  from LFUCache_put_absent_full[OF i(1) assms(2), of v] assms(3,4) i(2)
  obtain l n where l: "fmlookup (LFUCache.frequencyToListMap c) (LFUCache.minFrequency c) = Some l"
    "l \<noteq> []" "fmlookup (LFUCache.keyToNodeMap c) (last l) = Some n"
    "CacheNode.frequency n = LFUCache.minFrequency c"
    "LFUCache_put k v c = Inr (LFUCache_inserted k v (LFUCache_evicted (last l) c))"
    by auto
  have "fmdom' (LFUCache.keyToNodeMap (LFUCache_inserted k v (LFUCache_evicted (last l) c))) =
             insert k (fmdom' (LFUCache.keyToNodeMap c) - {last l})"
    by (simp add: LFUCache_inserted_def LFUCache_evicted_def)
  with l show ?thesis by blast
qed

text \<open>
  Where \<open>minFrequency\<close> is the smallest frequency that has a list, no stored node has a
  smaller frequency than a node of the list of \<open>minFrequency\<close>.
\<close>

lemma LFUCache_minFrequency_least:
  assumes "LFUCache_inv c" "LFUCache_minFrequency_ok c" "fmlookup (LFUCache.keyToNodeMap c) k = Some n"
  shows "sint (LFUCache.minFrequency c) \<le> sint (CacheNode.frequency n)"
proof -
  have lk: "LFUCache_linked (LFUCache.keyToNodeMap c) (LFUCache.frequencyToListMap c)"
    using assms(1) by (simp add: LFUCache_inv_def)
  from LFUCache_linked_node(2)[OF lk assms(3)] obtain l where
    l: "fmlookup (LFUCache.frequencyToListMap c) (CacheNode.frequency n) = Some l" "k \<in> set l"
    by blast
  then have "CacheNode.frequency n \<in> LFUCache_frequencies c"
    by (auto simp: LFUCache_frequencies_def intro: fmdom'I)
  moreover have "finite (sint ` LFUCache_frequencies c)"
    by (simp add: LFUCache_frequencies_def)
  ultimately have "Min (sint ` LFUCache_frequencies c) \<le> sint (CacheNode.frequency n)"
    by (intro Min_le) auto
  then show ?thesis using assms(2) by (simp add: LFUCache_minFrequency_ok_def)
qed

text \<open>
  So, as long as no more than \<open>2^31 - 1\<close> calls have been made, the node that an eviction
  removes is one of the least frequency among the stored nodes.
\<close>

lemma LFUCache_eviction_least_frequent:
  assumes "length xs \<le> 2147483647" "LFUCache_run xs (LFUCache_init cap) = Inr c"
    "fmlookup (LFUCache.keyToNodeMap c) k = None" "cap \<noteq> 0"
    "HashMap_size (LFUCache.keyToNodeMap c) = sint cap"
  shows "\<exists>l x. fmlookup (LFUCache.frequencyToListMap c) (LFUCache.minFrequency c) = Some l \<and> l \<noteq> [] \<and>
           fmlookup (LFUCache.keyToNodeMap c) (last l) = Some x \<and>
           LFUCache_put k v c = Inr (LFUCache_inserted k v (LFUCache_evicted (last l) c)) \<and>
           (\<forall>j n. fmlookup (LFUCache.keyToNodeMap c) j = Some n \<longrightarrow>
              sint (CacheNode.frequency x) \<le> sint (CacheNode.frequency n))"
proof -
  from LFUCache_eviction_takes_tail[OF assms(2,3,4,5), of v] obtain l x where
    l: "fmlookup (LFUCache.frequencyToListMap c) (LFUCache.minFrequency c) = Some l" "l \<noteq> []"
       "fmlookup (LFUCache.keyToNodeMap c) (last l) = Some x"
       "CacheNode.frequency x = LFUCache.minFrequency c"
       "LFUCache_put k v c = Inr (LFUCache_inserted k v (LFUCache_evicted (last l) c))"
    by blast
  have ne: "fmdom' (LFUCache.keyToNodeMap c) \<noteq> {}" using l(3) by (auto dest: fmdom'I)
  have ok: "LFUCache_minFrequency_ok c" using LFUCache_minFrequency_ok_run[OF assms(1,2) ne] .
  have "sint (CacheNode.frequency x) \<le> sint (CacheNode.frequency n)"
    if "fmlookup (LFUCache.keyToNodeMap c) j = Some n" for j n
    using LFUCache_minFrequency_least[OF LFUCache_run_inv(1)[OF assms(2)] ok that] l(4) by simp
  with l show ?thesis by blast
qed

text \<open>
  The example of C1: in a new cache of capacity 2, \<^verbatim>\<open>put(A,1); put(B,2); put(C,3)\<close> evicts A,
  the older of the two keys of frequency 1, and leaves B and C.
\<close>

lemma LFUCache_tie_break:
  assumes "a \<noteq> b" "a \<noteq> c" "b \<noteq> c"
  shows "\<exists>r. LFUCache_run [LFU_put a va, LFU_put b vb, LFU_put c vc] (LFUCache_init 2) = Inr r \<and>
           fmdom' (LFUCache.keyToNodeMap r) = {b, c} \<and>
           fmlookup (LFUCache.frequencyToListMap r) 1 = Some [c, b]"
proof -
  let ?c0 = "\<lparr>LFUCache.keyToNodeMap = fmempty, LFUCache.frequencyToListMap = fmempty,
          LFUCache.capacity = 2, LFUCache.minFrequency = 0\<rparr>"
  let ?c1 = "LFUCache_inserted a va ?c0"
  let ?c2 = "LFUCache_inserted b vb ?c1"
  have p1: "LFUCache_put a va ?c0 = Inr ?c1"
    by (simp add: LFUCache_put_absent_room HashMap_size_def)
  have p2: "LFUCache_put b vb ?c1 = Inr ?c2"
    using assms(1) by (simp add: LFUCache_put_absent_room HashMap_size_def LFUCache_inserted_def)
  have r2: "LFUCache_run [LFU_put a va, LFU_put b vb] (LFUCache_init 2) = Inr ?c2"
    using p1 p2 by (simp add: LFUCache_init_def)
  have fl: "LFUCache.frequencyToListMap ?c2 = fmupd 1 [b, a] fmempty" "LFUCache.minFrequency ?c2 = 1"
    by (simp_all add: LFUCache_inserted_def LFUCache_linked_first_def)
  have k: "fmlookup (LFUCache.keyToNodeMap ?c2) c = None"
    using assms by (simp add: LFUCache_inserted_def)
  have sz: "HashMap_size (LFUCache.keyToNodeMap ?c2) = sint (2 :: jint)"
    using assms(1) by (simp add: LFUCache_inserted_def HashMap_size_def)
  from LFUCache_eviction_takes_tail[OF r2 k _ sz, of vc] fl
  have p3: "LFUCache_put c vc ?c2 = Inr (LFUCache_inserted c vc (LFUCache_evicted a ?c2))"
    by auto
  have "fmdom' (LFUCache.keyToNodeMap (LFUCache_inserted c vc (LFUCache_evicted a ?c2))) = {b, c}"
    using assms by (auto simp: LFUCache_inserted_def LFUCache_evicted_def)
  moreover have "fmlookup (LFUCache.frequencyToListMap (LFUCache_inserted c vc (LFUCache_evicted a ?c2))) 1
      = Some [c, b]"
    using assms
    by (simp add: LFUCache_inserted_def LFUCache_evicted_def LFUCache_linked_first_def
        LFUCache_unlinked_def fmmap_fmupd)
  ultimately show ?thesis using p1 p2 p3 by (simp add: LFUCache_init_def)
qed

text \<open>
  At \<^verbatim>\<open>new LFUCache(2)\<close>, \<^verbatim>\<open>put(1,1); put(2,2)\<close>, \<open>2^31 - 1\<close> times \<^verbatim>\<open>get(2)\<close> and then
  \<^verbatim>\<open>put(3,3)\<close>, the \<^verbatim>\<open>frequency\<close> field of key 2 has wrapped around to \<open>- 2^31\<close>, below the
  field of key 1. \<^verbatim>\<open>put\<close> evicts key 1, the last node of the list of \<open>minFrequency = 1\<close>, and
  leaves keys 2 and 3: the node it removes is still the one that has been used less, and
  no longer the one whose field is the smaller number.
\<close>

lemma LFUCache_eviction_wrapped_field:
  "\<exists>c c'. LFUCache_run ([LFU_put 1 1, LFU_put 2 2] @ replicate 2147483647 (LFU_get 2))
             (LFUCache_init 2) = Inr c \<and>
          map_option CacheNode.frequency (fmlookup (LFUCache.keyToNodeMap c) 1) = Some 1 \<and>
          map_option CacheNode.frequency (fmlookup (LFUCache.keyToNodeMap c) 2) = Some (- 2147483648) \<and>
          sint (- 2147483648 :: jint) < sint (1 :: jint) \<and>
          HashMap_size (LFUCache.keyToNodeMap c) = sint (LFUCache.capacity c) \<and>
          fmlookup (LFUCache.keyToNodeMap c) 3 = None \<and>
          LFUCache_put 3 3 c = Inr c' \<and>
          fmdom' (LFUCache.keyToNodeMap c') = {2, 3}"
proof -
  let ?c = "LFUCache_two_keys (- 2147483648)"
  have f: "map_option CacheNode.frequency (fmlookup (LFUCache.keyToNodeMap ?c) 1) = Some 1"
    "map_option CacheNode.frequency (fmlookup (LFUCache.keyToNodeMap ?c) 2) = Some (- 2147483648)"
    "sint (- 2147483648 :: jint) < sint (1 :: jint)"
    "fmlookup (LFUCache.keyToNodeMap ?c) 3 = None"
    by (simp_all add: LFUCache_two_keys_def)
  have sz: "HashMap_size (LFUCache.keyToNodeMap ?c) = sint (2 :: jint)"
    by (simp add: LFUCache_two_keys_def HashMap_size_def)
  have fl: "fmlookup (LFUCache.frequencyToListMap ?c) (LFUCache.minFrequency ?c) = Some [1]"
    by (simp add: LFUCache_two_keys_def)
  from LFUCache_eviction_takes_tail[OF LFUCache_two_keys_reached f(4) _ sz, of 3] fl
  have p: "LFUCache_put 3 3 ?c = Inr (LFUCache_inserted 3 3 (LFUCache_evicted 1 ?c))"
    by auto
  have "fmdom' (LFUCache.keyToNodeMap (LFUCache_inserted 3 3 (LFUCache_evicted 1 ?c))) = {2, 3}"
    by (auto simp: LFUCache_inserted_def LFUCache_evicted_def LFUCache_two_keys_def)
  moreover have "HashMap_size (LFUCache.keyToNodeMap ?c) = sint (LFUCache.capacity ?c)"
    using sz by (simp add: LFUCache_two_keys_def)
  ultimately show ?thesis using LFUCache_two_keys_reached f p by blast
qed

text \<open>
  C1 at \<^verbatim>\<open>new LFUCache(2)\<close>, \<^verbatim>\<open>put(1,1); put(2,2)\<close>, \<open>2^32\<close> times \<^verbatim>\<open>get(2)\<close>, \<^verbatim>\<open>get(1)\<close> and
  then \<^verbatim>\<open>put(3,3)\<close>. No call throws. Before the last call the sequence has used key 1 twice
  and key 2 \<open>2^32 + 1\<close> times, and both keys are stored; the \<^verbatim>\<open>frequency\<close> field of key 1 is
  2, and the field of key 2 has gone all the way round and is 1. The cache is full and
  key 3 is not stored, so \<^verbatim>\<open>put\<close> evicts: it removes the last node of the list of
  \<open>minFrequency = 1\<close>, which is key 2, and leaves keys 1 and 3. The entry it removes is the
  one used most, not the one used least.
\<close>

theorem LFUCache_evicts_most_used:
  "\<exists>c c' m1 m2.
     LFUCache_run ([LFU_put 1 1, LFU_put 2 2] @ replicate 4294967296 (LFU_get 2) @ [LFU_get 1])
       (LFUCache_init 2) = Inr c \<and>
     LFUCache_uses 1 ([LFU_put 1 1, LFU_put 2 2] @ replicate 4294967296 (LFU_get 2) @ [LFU_get 1]) = 2 \<and>
     LFUCache_uses 2 ([LFU_put 1 1, LFU_put 2 2] @ replicate 4294967296 (LFU_get 2) @ [LFU_get 1])
       = 4294967297 \<and>
     fmlookup (LFUCache.keyToNodeMap c) 1 = Some m1 \<and> CacheNode.frequency m1 = 2 \<and>
     fmlookup (LFUCache.keyToNodeMap c) 2 = Some m2 \<and> CacheNode.frequency m2 = 1 \<and>
     fmlookup (LFUCache.keyToNodeMap c) 3 = None \<and>
     HashMap_size (LFUCache.keyToNodeMap c) = sint (LFUCache.capacity c) \<and>
     LFUCache.minFrequency c = 1 \<and>
     fmlookup (LFUCache.frequencyToListMap c) 1 = Some [2] \<and>
     LFUCache_put 3 3 c = Inr c' \<and>
     fmdom' (LFUCache.keyToNodeMap c') = {1, 3}"
proof -
  let ?c = "LFUCache_two_keys_passed"
  let ?m1 = "\<lparr>CacheNode.key = 1, CacheNode.value = 1, CacheNode.frequency = 2\<rparr>"
  let ?m2 = "\<lparr>CacheNode.key = 2, CacheNode.value = 2, CacheNode.frequency = 1\<rparr>"
  have u: "LFUCache_uses 1 ([LFU_put 1 1, LFU_put 2 2] @ replicate 4294967296 (LFU_get 2) @ [LFU_get 1]) = 2"
    "LFUCache_uses 2 ([LFU_put 1 1, LFU_put 2 2] @ replicate 4294967296 (LFU_get 2) @ [LFU_get 1])
       = 4294967297"
    by (simp_all add: LFUCache_uses_append LFUCache_uses_gets) (simp_all add: LFUCache_uses_def)
  have f: "fmlookup (LFUCache.keyToNodeMap ?c) 1 = Some ?m1"
    "fmlookup (LFUCache.keyToNodeMap ?c) 2 = Some ?m2"
    "fmlookup (LFUCache.keyToNodeMap ?c) 3 = None"
    "LFUCache.minFrequency ?c = 1"
    "fmlookup (LFUCache.frequencyToListMap ?c) 1 = Some [2]"
    by (simp_all add: LFUCache_two_keys_passed_def)
  have sz: "HashMap_size (LFUCache.keyToNodeMap ?c) = sint (2 :: jint)"
    by (simp add: LFUCache_two_keys_passed_def HashMap_size_def)
  then have sc: "HashMap_size (LFUCache.keyToNodeMap ?c) = sint (LFUCache.capacity ?c)"
    by (simp add: LFUCache_two_keys_passed_def)
  from LFUCache_eviction_takes_tail[OF LFUCache_two_keys_passed_reached f(3) _ sz, of 3] f(4,5)
  have p: "LFUCache_put 3 3 ?c = Inr (LFUCache_inserted 3 3 (LFUCache_evicted 2 ?c))"
    by auto
  have "fmdom' (LFUCache.keyToNodeMap (LFUCache_inserted 3 3 (LFUCache_evicted 2 ?c))) = {1, 3}"
    by (auto simp: LFUCache_inserted_def LFUCache_evicted_def LFUCache_two_keys_passed_def)
  with LFUCache_two_keys_passed_reached u f sc p show ?thesis
    by (intro exI[of _ ?c] exI[of _ "LFUCache_inserted 3 3 (LFUCache_evicted 2 ?c)"]
        exI[of _ ?m1] exI[of _ ?m2]) simp
qed



end
